theory Spec2Isabelle
  imports Complex_Main "HOL-Library.Log_Nat" "HOL-Library.Word"
begin

section \<open>Python floats\<close>

text \<open>
  \<^verbatim>\<open>scale_factor\<close> is a Python \<^verbatim>\<open>float\<close>, an IEEE 754 binary64 value. A finite float is
  represented by the rational number it denotes; the two infinities and NaN are separate
  values. The sign of a zero is not recorded (\<^verbatim>\<open>int(-0.0)\<close> is \<^verbatim>\<open>0\<close> as well).

  Every arithmetic operation rounds its exact result to the nearest binary64 value, ties
  to the even significand: \<open>fl\<close> does that for an unbounded exponent range above (53
  significant bits, least exponent \<open>-1074\<close>), and \<open>to_double\<close> turns a rounded magnitude
  of \<open>2 ^ 1024\<close> or more into an infinity.
\<close>

datatype pyfloat = Finite rat | PosInf | NegInf | NaN

definition round_half_even :: "rat \<Rightarrow> int" where
  "round_half_even x =
     (let f = \<lfloor>x\<rfloor>; r = x - of_int f
      in if r < 1 / 2 then f else if 1 / 2 < r then f + 1 else if even f then f else f + 1)"

text \<open>\<open>ilog2 x\<close> is \<open>\<lfloor>log\<^sub>2 x\<rfloor>\<close> for a positive rational, computed from the bit lengths of
  its numerator and denominator.\<close>

definition ilog2 :: "rat \<Rightarrow> int" where
  "ilog2 x =
     (case quotient_of x of (p, q) \<Rightarrow>
        let d = bitlen p - bitlen q in if 2 powi d \<le> x then d else d - 1)"

definition ulp_exp :: "rat \<Rightarrow> int" where
  "ulp_exp x = max (ilog2 \<bar>x\<bar> - 52) (- 1074)"

definition fl :: "rat \<Rightarrow> rat" where
  "fl x = (if x = 0 then 0
           else of_int (round_half_even (x / 2 powi ulp_exp x)) * 2 powi ulp_exp x)"

definition to_double :: "rat \<Rightarrow> pyfloat" where
  "to_double r =
     (let v = fl r
      in if 2 ^ 1024 \<le> v then PosInf else if v \<le> - (2 ^ 1024) then NegInf else Finite v)"

datatype exn =
    OverflowError
  | ValueError
  | OSError
  | MemoryError
  | FileNotFoundError
  | IsADirectoryError
  | UnidentifiedImageError

text \<open>The sign of a float, for the products that involve an infinity.\<close>

fun fsgn :: "pyfloat \<Rightarrow> int" where
  "fsgn (Finite r) = (if r < 0 then - 1 else if r = 0 then 0 else 1)"
| "fsgn PosInf = 1"
| "fsgn NegInf = - 1"
| "fsgn NaN = 0"

fun fmul :: "pyfloat \<Rightarrow> pyfloat \<Rightarrow> pyfloat" where
  "fmul (Finite a) (Finite b) = to_double (a * b)"
| "fmul NaN y = NaN"
| "fmul x NaN = NaN"
| "fmul x y =
     (let s = fsgn x * fsgn y in if s = 0 then NaN else if 0 < s then PosInf else NegInf)"

fun fsub :: "pyfloat \<Rightarrow> pyfloat \<Rightarrow> pyfloat" where
  "fsub (Finite a) (Finite b) = to_double (a - b)"
| "fsub NaN y = NaN"
| "fsub x NaN = NaN"
| "fsub PosInf PosInf = NaN"
| "fsub NegInf NegInf = NaN"
| "fsub PosInf y = PosInf"
| "fsub NegInf y = NegInf"
| "fsub (Finite a) PosInf = NegInf"
| "fsub (Finite a) NegInf = PosInf"

text \<open>\<^verbatim>\<open>int(x)\<close> truncates towards zero; it raises \<^verbatim>\<open>OverflowError\<close> on an infinity and
  \<^verbatim>\<open>ValueError\<close> on NaN.\<close>

fun py_int :: "pyfloat \<Rightarrow> exn + int" where
  "py_int (Finite r) = Inr (if 0 \<le> r then \<lfloor>r\<rfloor> else \<lceil>r\<rceil>)"
| "py_int PosInf = Inl OverflowError"
| "py_int NegInf = Inl OverflowError"
| "py_int NaN = Inl ValueError"

text \<open>In \<^verbatim>\<open>size * scale_factor\<close> the integer operand is converted to a float first,
  correctly rounded; an integer beyond the float range raises \<^verbatim>\<open>OverflowError\<close>.\<close>

definition float_of_int :: "int \<Rightarrow> exn + pyfloat" where
  "float_of_int n =
     (case to_double (of_int n) of Finite v \<Rightarrow> Inr (Finite v) | _ \<Rightarrow> Inl OverflowError)"

text \<open>The default \<^verbatim>\<open>scale_factor=1.2\<close>: the literal denotes the float nearest to \<open>6/5\<close>.\<close>

definition default_scale_factor :: pyfloat where
  "default_scale_factor = to_double (6 / 5)"

section \<open>Images and the Pillow calls the script makes\<close>

text \<open>
  A pixel is its four channels (red, green, blue, alpha), each a byte; a raster
  is a function from coordinates to pixels, read inside \<open>0..<width\<close>, \<open>0..<height\<close>
  only. Pixels are recorded by the value their \<^verbatim>\<open>RGBA\<close> reading has, so
  \<^verbatim>\<open>convert('RGBA')\<close> changes the mode tag and nothing else.

  \<^verbatim>\<open>Image.open\<close> is lazy: it reads the header (mode and dimensions) and leaves the data
  stream for the first \<^verbatim>\<open>load()\<close>. An image whose data stream is broken has
  \<open>data = None\<close>: it opens, and \<^verbatim>\<open>load()\<close> raises \<^verbatim>\<open>OSError\<close>.
\<close>

type_synonym rgba = "8 word \<times> 8 word \<times> 8 word \<times> 8 word"

type_synonym pixels = "int \<Rightarrow> int \<Rightarrow> rgba"

record image =
  mode :: string
  width :: int
  height :: int
  data :: "pixels option"

text \<open>The Lanczos resampling is Pillow's C code: it is a parameter of the model, given
  the source raster, the source dimensions and the target dimensions. It may raise (for
  instance \<^verbatim>\<open>MemoryError\<close> for a target too large to allocate).\<close>

type_synonym resampler = "pixels \<Rightarrow> int \<times> int \<Rightarrow> int \<times> int \<Rightarrow> exn + pixels"

definition load :: "image \<Rightarrow> exn + pixels" where
  "load im = (case data im of None \<Rightarrow> Inl OSError | Some p \<Rightarrow> Inr p)"

definition convert :: "image \<Rightarrow> string \<Rightarrow> exn + image" where
  "convert im m = (case load im of Inl e \<Rightarrow> Inl e | Inr p \<Rightarrow> Inr (im\<lparr>mode := m\<rparr>))"

text \<open>\<^verbatim>\<open>Image.resize(size, resample)\<close>: loads the image, returns a copy when the
  requested size is the image's own, raises \<^verbatim>\<open>ValueError\<close> (height and width must
  be \<open>> 0\<close>) when a side is below 1, and resamples otherwise.\<close>

definition resize :: "resampler \<Rightarrow> image \<Rightarrow> int \<times> int \<Rightarrow> exn + image" where
  "resize flt im sz =
     (case load im of
        Inl e \<Rightarrow> Inl e
      | Inr p \<Rightarrow>
          if (width im, height im) = sz then Inr im
          else if fst sz < 1 \<or> snd sz < 1 then Inl ValueError
          else (case flt p (width im, height im) sz of
                  Inl e \<Rightarrow> Inl e
                | Inr q \<Rightarrow> Inr \<lparr>mode = mode im, width = fst sz, height = snd sz, data = Some q\<rparr>))"

text \<open>\<^verbatim>\<open>Image.new(mode, size, color)\<close>: a raster filled with one colour.\<close>

definition Image_new :: "string \<Rightarrow> int \<times> int \<Rightarrow> rgba \<Rightarrow> exn + image" where
  "Image_new m sz c =
     (if fst sz < 0 \<or> snd sz < 0 then Inl ValueError
      else Inr \<lparr>mode = m, width = fst sz, height = snd sz, data = Some (\<lambda>x y. c)\<rparr>)"

text \<open>\<^verbatim>\<open>Image.crop((left, upper, right, lower))\<close>: the box is checked first, then the
  image is loaded; the result has the box's dimensions, and reads transparent black
  where the box leaves the image.\<close>

definition crop :: "image \<Rightarrow> int \<times> int \<times> int \<times> int \<Rightarrow> exn + image" where
  "crop im box =
     (case box of (l, u, r, d) \<Rightarrow>
        if r < l \<or> d < u then Inl ValueError
        else (case load im of
                Inl e \<Rightarrow> Inl e
              | Inr p \<Rightarrow>
                  Inr \<lparr>mode = mode im, width = r - l, height = d - u,
                       data = Some (\<lambda>x y. if 0 \<le> x + l \<and> x + l < width im \<and>
                                               0 \<le> y + u \<and> y + u < height im
                                            then p (x + l) (y + u) else (0, 0, 0, 0))\<rparr>))"

text \<open>\<^verbatim>\<open>Image.paste(im, (x, y), mask)\<close> with an \<^verbatim>\<open>RGBA\<close> mask blends every channel of
  the destination, alpha included, with the pasted pixel by the mask's alpha:
  \<^verbatim>\<open>BLEND8(mask, in1, in2) = DIV255(in1 * (255 - mask) + in2 * mask)\<close>, where
  \<^verbatim>\<open>DIV255(a) = (tmp = a + 128, ((tmp >> 8) + tmp) >> 8)\<close>, computed in \<^verbatim>\<open>unsigned int\<close>
  (no operand exceeds \<open>255 * 255\<close>) and stored in a byte. Where the mask is 255 the
  pasted pixel is copied, where it is 0 the destination is kept. The pasted region is
  clipped to the destination.\<close>

definition div255 :: "nat \<Rightarrow> nat" where
  "div255 a = (let tmp = a + 128 in (tmp div 256 + tmp) div 256)"

definition blend8 :: "8 word \<Rightarrow> 8 word \<Rightarrow> 8 word \<Rightarrow> 8 word" where
  "blend8 m in1 in2 = of_nat (div255 (unat in1 * (255 - unat m) + unat in2 * unat m))"

fun alpha :: "rgba \<Rightarrow> 8 word" where
  "alpha (r, g, b, a) = a"

fun blend :: "8 word \<Rightarrow> rgba \<Rightarrow> rgba \<Rightarrow> rgba" where
  "blend m (r1, g1, b1, a1) (r2, g2, b2, a2) =
     (blend8 m r1 r2, blend8 m g1 g2, blend8 m b1 b2, blend8 m a1 a2)"

definition paste :: "image \<Rightarrow> image \<Rightarrow> int \<times> int \<Rightarrow> image \<Rightarrow> exn + image" where
  "paste dst im pos msk =
     (case pos of (px, py) \<Rightarrow>
     (case load im of
        Inl e \<Rightarrow> Inl e
      | Inr p \<Rightarrow>
     (case load msk of
        Inl e \<Rightarrow> Inl e
      | Inr pm \<Rightarrow>
     (case load dst of
        Inl e \<Rightarrow> Inl e
      | Inr pd \<Rightarrow>
          if (width msk, height msk) \<noteq> (width im, height im) then Inl ValueError
          else Inr (dst\<lparr>data := Some (\<lambda>x y.
                 if px \<le> x \<and> x < px + width im \<and> 0 \<le> x \<and> x < width dst \<and>
                    py \<le> y \<and> y < py + height im \<and> 0 \<le> y \<and> y < height dst
                 then blend (alpha (pm (x - px) (y - py))) (pd x y) (p (x - px) (y - py))
                 else pd x y)\<rparr>)))))"

section \<open>The file system and the console\<close>

text \<open>
  A file system maps a path to what is there: a directory, or a file. A file is an
  image file of some format (identified by \<^verbatim>\<open>Image.open\<close>) or anything else. Paths
  are compared as strings; the empty directory name is the current directory.
  Permissions, full disks and partial writes are not modelled.
\<close>

datatype content = Img string image | Junk

datatype node = Dir | File content

type_synonym fs = "string \<Rightarrow> node option"

datatype line =
    SourceImage int int
  | ScaleFactor pyfloat int
  | ErrorOpening exn
  | Generated int string
  | ErrorGenerating int exn
  | SourceNotFound string
  | OutputNotFound string
  | Generating string
  | AllGenerated
  | FailedSome

record world =
  files :: fs
  console :: "line list"

definition print :: "world \<Rightarrow> line \<Rightarrow> world" where
  "print w l = w\<lparr>console := console w @ [l]\<rparr>"

definition path_exists :: "fs \<Rightarrow> string \<Rightarrow> bool" where
  "path_exists f p = (case f p of None \<Rightarrow> False | Some n \<Rightarrow> True)"

text \<open>\<^verbatim>\<open>os.path.join\<close> and \<^verbatim>\<open>os.path.dirname\<close> of \<^verbatim>\<open>posixpath\<close>.\<close>

definition path_join :: "string \<Rightarrow> string \<Rightarrow> string" where
  "path_join a b =
     (if take 1 b = ''/'' then b
      else if a = [] \<or> take 1 (rev a) = ''/'' then a @ b
      else a @ ''/'' @ b)"

definition dirname :: "string \<Rightarrow> string" where
  "dirname p =
     (let head = rev (dropWhile (\<lambda>c. c \<noteq> CHR ''/'') (rev p))
      in if filter (\<lambda>c. c \<noteq> CHR ''/'') head = [] then head
         else rev (dropWhile (\<lambda>c. c = CHR ''/'') (rev head)))"

definition is_dir :: "fs \<Rightarrow> string \<Rightarrow> bool" where
  "is_dir f p = (p = [] \<or> (case f p of Some Dir \<Rightarrow> True | _ \<Rightarrow> False))"

definition Image_open :: "fs \<Rightarrow> string \<Rightarrow> exn + image" where
  "Image_open f p =
     (case f p of
        None \<Rightarrow> Inl FileNotFoundError
      | Some Dir \<Rightarrow> Inl IsADirectoryError
      | Some (File Junk) \<Rightarrow> Inl UnidentifiedImageError
      | Some (File (Img fmt im)) \<Rightarrow> Inr im)"

text \<open>\<^verbatim>\<open>Image.save(path, format)\<close> opens the path for writing, which fails on a
  directory and under a missing directory, and replaces whatever file was there.\<close>

definition save :: "fs \<Rightarrow> image \<Rightarrow> string \<Rightarrow> string \<Rightarrow> exn + fs" where
  "save f im path fmt =
     (case load im of
        Inl e \<Rightarrow> Inl e
      | Inr p \<Rightarrow>
          (case f path of
             Some Dir \<Rightarrow> Inl IsADirectoryError
           | _ \<Rightarrow>
               if \<not> is_dir f (dirname path) then Inl FileNotFoundError
               else Inr (f(path \<mapsto> File (Img fmt im)))))"

section \<open>The script\<close>

text \<open>\<^verbatim>\<open>UNIQUE_SIZES\<close>, in the insertion order a Python \<^verbatim>\<open>dict\<close> iterates in.\<close>

definition UNIQUE_SIZES :: "(int \<times> string option) list" where
  "UNIQUE_SIZES =
     [(20, None),
      (29, Some ''writing shed iPhone Settings.png''),
      (40, Some ''writing shed spotlight.png''),
      (58, Some ''writing shed settings 2.png''),
      (60, Some ''writing shed spotlight 3.png''),
      (76, Some ''writing shed iPad.png''),
      (80, Some ''writing shed spolight 2.png''),
      (87, Some ''writing shed settings 3.png''),
      (120, Some ''writing shed iphone 2.png''),
      (152, Some ''writing shed ipad 2.png''),
      (167, Some ''writing shed iPad Pro 2.png''),
      (180, Some ''writing shed iphone 3.png''),
      (1024, Some ''writing shed 1024.png'')]"

text \<open>The file names of the entries that have one, in table order.\<close>

fun filenames :: "(int \<times> string option) list \<Rightarrow> string list" where
  "filenames [] = []"
| "filenames ((sz, None) # rest) = filenames rest"
| "filenames ((sz, Some filename) # rest) = filename # filenames rest"

text \<open>\<^verbatim>\<open>content_size = int(size * scale_factor)\<close>\<close>

definition content_size :: "int \<Rightarrow> pyfloat \<Rightarrow> exn + int" where
  "content_size sz scale_factor =
     (case float_of_int sz of
        Inl e \<Rightarrow> Inl e
      | Inr f \<Rightarrow> py_int (fmul f scale_factor))"

text \<open>The geometry of lines 92 to 106: the crop rectangle taken from the resized
  content when it is larger than the canvas, and the position it is pasted at.\<close>

definition crop_margin :: "int \<Rightarrow> int \<Rightarrow> int" where
  "crop_margin sz cs = (cs - sz) div 2"

definition crop_box :: "int \<Rightarrow> int \<Rightarrow> int \<times> int \<times> int \<times> int" where
  "crop_box sz cs =
     (crop_margin sz cs, crop_margin sz cs, crop_margin sz cs + sz, crop_margin sz cs + sz)"

definition paste_pos :: "int \<Rightarrow> int \<Rightarrow> int \<times> int" where
  "paste_pos sz cs = (if cs > sz then (0, 0) else ((sz - cs) div 2, (sz - cs) div 2))"

text \<open>Lines 83 to 109, the image built for one size: resize, new canvas, crop when the
  content is larger, paste with the content as its own mask.\<close>

definition compose :: "resampler \<Rightarrow> image \<Rightarrow> pyfloat \<Rightarrow> int \<Rightarrow> exn + image" where
  "compose flt img scale_factor sz =
     (case content_size sz scale_factor of
        Inl e \<Rightarrow> Inl e
      | Inr cs \<Rightarrow>
     (case resize flt img (cs, cs) of
        Inl e \<Rightarrow> Inl e
      | Inr scaled_content \<Rightarrow>
     (case Image_new ''RGBA'' (sz, sz) (0, 0, 0, 0) of
        Inl e \<Rightarrow> Inl e
      | Inr final_image \<Rightarrow>
     (case (if cs > sz then crop scaled_content (crop_box sz cs) else Inr scaled_content) of
        Inl e \<Rightarrow> Inl e
      | Inr cropped \<Rightarrow> paste final_image cropped (paste_pos sz cs) cropped))))"

text \<open>Lines 81 to 114, the body of the \<^verbatim>\<open>try\<close>: the image is built, saved as PNG under
  \<^verbatim>\<open>os.path.join(output_dir, filename)\<close>, and the success line is printed. \<open>Inl e\<close> is
  the exception the \<^verbatim>\<open>except\<close> clause receives.\<close>

definition render :: "resampler \<Rightarrow> image \<Rightarrow> string \<Rightarrow> pyfloat \<Rightarrow> int \<Rightarrow> string \<Rightarrow> world \<Rightarrow> exn + world" where
  "render flt img output_dir scale_factor sz filename w =
     (case compose flt img scale_factor sz of
        Inl e \<Rightarrow> Inl e
      | Inr final_image \<Rightarrow>
     (case save (files w) final_image (path_join output_dir filename) ''PNG'' of
        Inl e \<Rightarrow> Inl e
      | Inr f \<Rightarrow> Inr (print (w\<lparr>files := f\<rparr>) (Generated sz filename))))"

text \<open>Lines 77 to 120, the loop over the table: an entry without a file name is
  skipped, an exception in the body prints the error line and returns \<^verbatim>\<open>False\<close>.\<close>

fun generate_loop ::
  "resampler \<Rightarrow> image \<Rightarrow> string \<Rightarrow> pyfloat \<Rightarrow> (int \<times> string option) list \<Rightarrow> world \<Rightarrow> bool \<times> world" where
  "generate_loop flt img output_dir scale_factor [] w = (True, w)"
| "generate_loop flt img output_dir scale_factor ((sz, None) # rest) w =
     generate_loop flt img output_dir scale_factor rest w"
| "generate_loop flt img output_dir scale_factor ((sz, Some filename) # rest) w =
     (case render flt img output_dir scale_factor sz filename w of
        Inl e \<Rightarrow> (False, print w (ErrorGenerating sz e))
      | Inr w' \<Rightarrow> generate_loop flt img output_dir scale_factor rest w')"

text \<open>Lines 64 to 74: the source is opened and the two header lines are printed inside
  the first \<^verbatim>\<open>try\<close> (the second line formats \<^verbatim>\<open>int((scale_factor-1)*100)\<close>, which can
  raise); the conversion to \<^verbatim>\<open>RGBA\<close> is outside of any \<^verbatim>\<open>try\<close>. The result is
  \<open>Inl (Inl e)\<close> when the exception \<open>e\<close> leaves the function, \<open>Inl (Inr b)\<close> when the
  function returns \<open>b\<close> here, and \<open>Inr img\<close> when it goes on to the loop.\<close>

definition open_source :: "string \<Rightarrow> pyfloat \<Rightarrow> world \<Rightarrow> ((exn + bool) + image) \<times> world" where
  "open_source source_image_path scale_factor w =
     (case Image_open (files w) source_image_path of
        Inl e \<Rightarrow> (Inl (Inr False), print w (ErrorOpening e))
      | Inr img \<Rightarrow>
          let w1 = print w (SourceImage (width img) (height img))
          in (case py_int (fmul (fsub scale_factor (Finite 1)) (Finite 100)) of
                Inl e \<Rightarrow> (Inl (Inr False), print w1 (ErrorOpening e))
              | Inr percent \<Rightarrow>
                  let w2 = print w1 (ScaleFactor scale_factor percent)
                  in if mode img \<noteq> ''RGBA''
                     then (case convert img ''RGBA'' of
                             Inl e \<Rightarrow> (Inl (Inl e), w2)
                           | Inr img' \<Rightarrow> (Inr img', w2))
                     else (Inr img, w2)))"

text \<open>\<^verbatim>\<open>generate_icons(source_image_path, output_dir, scale_factor)\<close>: \<open>Inr b\<close> when it
  returns \<open>b\<close>, \<open>Inl e\<close> when the exception \<open>e\<close> propagates to the caller.\<close>

definition generate_icons ::
  "resampler \<Rightarrow> string \<Rightarrow> string \<Rightarrow> pyfloat \<Rightarrow> world \<Rightarrow> (exn + bool) \<times> world" where
  "generate_icons flt source_image_path output_dir scale_factor w =
     (case open_source source_image_path scale_factor w of
        (Inl r, w') \<Rightarrow> (r, w')
      | (Inr img, w') \<Rightarrow>
          (case generate_loop flt img output_dir scale_factor UNIQUE_SIZES w' of
             (ok, w2) \<Rightarrow> (Inr ok, w2)))"

text \<open>The \<^verbatim>\<open>__main__\<close> block (its \<^verbatim>\<open>output\<close> is \<open>output_path\<close> here). The process ends with an exit status, or with the
  traceback of an uncaught exception (which also gives status 1).\<close>

datatype outcome = Exit nat | Uncaught exn

fun exit_status :: "outcome \<Rightarrow> nat" where
  "exit_status (Exit n) = n"
| "exit_status (Uncaught e) = 1"

definition source :: string where
  "source = ''app_icon_source.png''"

definition output_path :: string where
  "output_path = ''WrtingShedPro/Writing Shed Pro/Assets.xcassets/AppIcon.appiconset''"

definition main :: "resampler \<Rightarrow> world \<Rightarrow> outcome \<times> world" where
  "main flt w =
     (if \<not> path_exists (files w) source then (Exit 1, print w (SourceNotFound source))
      else if \<not> path_exists (files w) output_path
      then (Exit 1, print w (OutputNotFound output_path))
      else (case generate_icons flt source output_path default_scale_factor (print w (Generating source)) of
              (Inl e, w') \<Rightarrow> (Uncaught e, w')
            | (Inr True, w') \<Rightarrow> (Exit 0, print w' AllGenerated)
            | (Inr False, w') \<Rightarrow> (Exit 1, print w' FailedSome)))"

text \<open>A nearest-neighbour resampler, to run the script on concrete inputs.\<close>

definition nearest :: resampler where
  "nearest p src dst = Inr (\<lambda>x y. p (x * fst src div fst dst) (y * snd src div snd dst))"

section \<open>Example inputs\<close>

text \<open>A world with a source image file at \<open>source\<close> and an empty directory at
  \<open>output_path\<close>.\<close>

definition world_with :: "image \<Rightarrow> world" where
  "world_with im = \<lparr>files = [source \<mapsto> File (Img ''PNG'' im), output_path \<mapsto> Dir], console = []\<rparr>"

text \<open>An opaque 1024 by 1024 \<^verbatim>\<open>RGB\<close> source, and a half-transparent 29 by 29 \<^verbatim>\<open>RGBA\<close>
  source.\<close>

definition example_source :: image where
  "example_source =
     \<lparr>mode = ''RGB'', width = 1024, height = 1024, data = Some (\<lambda>x y. (200, 100, 50, 255))\<rparr>"

definition translucent_source :: image where
  "translucent_source =
     \<lparr>mode = ''RGBA'', width = 29, height = 29, data = Some (\<lambda>x y. (10, 20, 30, 128))\<rparr>"

text \<open>Source files whose header is intact and whose data stream is cut short.\<close>

definition truncated_rgb :: image where
  "truncated_rgb = \<lparr>mode = ''RGB'', width = 1024, height = 1024, data = None\<rparr>"

definition truncated_rgba :: image where
  "truncated_rgba = \<lparr>mode = ''RGBA'', width = 1024, height = 1024, data = None\<rparr>"

text \<open>What a raster file at a path shows at one coordinate.\<close>

definition pixel_at :: "fs \<Rightarrow> string \<Rightarrow> int \<Rightarrow> int \<Rightarrow> rgba option" where
  "pixel_at f path x y =
     (case f path of
        Some (File (Img fmt im)) \<Rightarrow> (case data im of Some p \<Rightarrow> Some (p x y) | None \<Rightarrow> None)
      | _ \<Rightarrow> None)"

section \<open>Rounding to binary64\<close>

lemma pow2_pos: "(0::rat) < 2 powi k"
  by (rule zero_less_power_int) simp

lemma pow2_mono: "a \<le> b \<Longrightarrow> (2::rat) powi a \<le> 2 powi b"
  by (rule power_int_increasing) simp_all

lemma pow2_less_cancel:
  assumes "(2::rat) powi a < 2 powi b"
  shows "a < b"
proof (rule ccontr)
  assume "\<not> a < b"
  then have "(2::rat) powi b \<le> 2 powi a" by (intro pow2_mono) simp
  with assms show False by simp
qed

lemma bitlen_powi_bounds:
  assumes "0 < m"
  shows "(2::rat) powi (bitlen m - 1) \<le> of_int m" and "of_int m < (2::rat) powi bitlen m"
proof -
  from assms have b1: "1 \<le> bitlen m" by (auto simp: bitlen_alt_def)
  have lo: "2 ^ nat (bitlen m - 1) \<le> m" and hi: "m < 2 ^ nat (bitlen m)"
    using bitlen_bounds[OF assms] by auto
  have "(of_int (2 ^ nat (bitlen m - 1)) :: rat) \<le> of_int m"
    using lo by (simp only: of_int_le_iff)
  then show "(2::rat) powi (bitlen m - 1) \<le> of_int m"
    using b1 by (simp add: power_int_def)
  have "(of_int m :: rat) < of_int (2 ^ nat (bitlen m))"
    using hi by (simp only: of_int_less_iff)
  then show "of_int m < (2::rat) powi bitlen m"
    using b1 by (simp add: power_int_def)
qed

text \<open>\<open>ilog2\<close> is the binary logarithm rounded down.\<close>

lemma ilog2_bounds:
  assumes "0 < x"
  shows "2 powi ilog2 x \<le> x" and "x < 2 powi (ilog2 x + 1)"
proof -
  obtain p q where pq: "quotient_of x = (p, q)" by (cases "quotient_of x")
  have q: "0 < q" using pq by (rule quotient_of_denom_pos)
  have x: "x = of_int p / of_int q" using pq by (rule quotient_of_div)
  have p: "0 < p" using assms q x by (simp add: zero_less_divide_iff)
  define d where "d = bitlen p - bitlen q"
  note P = bitlen_powi_bounds[OF p] and Q = bitlen_powi_bounds[OF q]
  have qpos: "(0::rat) < of_int q" using q by simp
  have lo: "2 powi (d - 1) \<le> x"
  proof -
    have "(2::rat) powi (d - 1) * of_int q \<le> 2 powi (d - 1) * 2 powi bitlen q"
      using Q(2) by (intro mult_left_mono) auto
    also have "\<dots> = 2 powi (bitlen p - 1)"
      by (simp add: d_def power_int_add[symmetric])
    also have "\<dots> \<le> of_int p" by (rule P(1))
    finally show ?thesis unfolding x using qpos by (simp add: pos_le_divide_eq)
  qed
  have hi: "x < 2 powi (d + 1)"
  proof -
    have "(of_int p :: rat) < 2 powi bitlen p" by (rule P(2))
    also have "\<dots> = 2 powi (d + 1) * 2 powi (bitlen q - 1)"
      by (simp add: d_def power_int_add[symmetric])
    also have "\<dots> \<le> 2 powi (d + 1) * of_int q"
      using Q(1) by (intro mult_left_mono) auto
    finally show ?thesis unfolding x using qpos by (simp add: pos_divide_less_eq)
  qed
  have il: "ilog2 x = (if 2 powi d \<le> x then d else d - 1)"
    by (simp add: ilog2_def pq d_def Let_def)
  show "2 powi ilog2 x \<le> x" using lo by (simp add: il)
  show "x < 2 powi (ilog2 x + 1)" using hi by (auto simp: il not_le)
qed

lemma ilog2_mono:
  assumes "0 < x" "x \<le> y"
  shows "ilog2 x \<le> ilog2 y"
proof -
  have y: "0 < y" using assms by simp
  have "(2::rat) powi ilog2 x \<le> x" using ilog2_bounds(1)[OF assms(1)] .
  also have "\<dots> \<le> y" by fact
  also have "\<dots> < 2 powi (ilog2 y + 1)" using ilog2_bounds(2)[OF y] .
  finally have "ilog2 x < ilog2 y + 1" by (rule pow2_less_cancel)
  then show ?thesis by simp
qed

lemma round_half_even_of_int: "round_half_even (of_int n) = n"
  by (simp add: round_half_even_def)

lemma round_half_even_bounds:
  "\<lfloor>x\<rfloor> \<le> round_half_even x" "round_half_even x \<le> \<lfloor>x\<rfloor> + 1"
  by (simp_all add: round_half_even_def Let_def)

lemma round_half_even_mono:
  assumes "x \<le> y"
  shows "round_half_even x \<le> round_half_even y"
proof (cases "\<lfloor>x\<rfloor> = \<lfloor>y\<rfloor>")
  case True
  then show ?thesis using assms by (auto simp: round_half_even_def Let_def)
next
  case False
  then have "\<lfloor>x\<rfloor> < \<lfloor>y\<rfloor>" using floor_mono[OF assms] by simp
  then show ?thesis
    using round_half_even_bounds(2)[of x] round_half_even_bounds(1)[of y] by linarith
qed

text \<open>A value on the grid of \<open>x\<close> that bounds \<open>x\<close> bounds its rounding too.\<close>

lemma fl_grid_le:
  assumes "x \<noteq> 0" "x \<le> of_int k * 2 powi ulp_exp x"
  shows "fl x \<le> of_int k * 2 powi ulp_exp x"
proof -
  have u: "(0::rat) < 2 powi ulp_exp x" by (rule pow2_pos)
  have "x / 2 powi ulp_exp x \<le> of_int k" using assms(2) u by (simp add: pos_divide_le_eq)
  then have "round_half_even (x / 2 powi ulp_exp x) \<le> k"
    using round_half_even_mono round_half_even_of_int by metis
  then have "(of_int (round_half_even (x / 2 powi ulp_exp x)) :: rat) \<le> of_int k" by simp
  then show ?thesis using u assms(1) by (simp add: fl_def)
qed

lemma fl_grid_ge:
  assumes "x \<noteq> 0" "of_int k * 2 powi ulp_exp x \<le> x"
  shows "of_int k * 2 powi ulp_exp x \<le> fl x"
proof -
  have u: "(0::rat) < 2 powi ulp_exp x" by (rule pow2_pos)
  have "of_int k \<le> x / 2 powi ulp_exp x" using assms(2) u by (simp add: pos_le_divide_eq)
  then have "k \<le> round_half_even (x / 2 powi ulp_exp x)"
    using round_half_even_mono round_half_even_of_int by metis
  then have "(of_int k :: rat) \<le> of_int (round_half_even (x / 2 powi ulp_exp x))" by simp
  then show ?thesis using u assms(1) by (simp add: fl_def)
qed

lemma fl_grid_eq:
  assumes "x \<noteq> 0" "x = of_int k * 2 powi ulp_exp x"
  shows "fl x = x"
  using fl_grid_le[OF assms(1), of k] fl_grid_ge[OF assms(1), of k] assms(2) by simp

lemma pow2_grid:
  assumes "e \<le> k"
  shows "(2::rat) powi k = of_int (2 ^ nat (k - e)) * 2 powi e"
proof -
  have "(2::rat) powi k = 2 powi (k - e) * 2 powi e"
    by (simp add: power_int_add[symmetric])
  also have "(2::rat) powi (k - e) = of_int (2 ^ nat (k - e))"
    using assms by (simp add: power_int_def)
  finally show ?thesis .
qed

text \<open>Rounding is monotone on the positive rationals.\<close>

lemma fl_mono_pos:
  assumes "0 < x" "x \<le> y"
  shows "fl x \<le> fl y"
proof -
  have y: "0 < y" using assms by simp
  have xa: "\<bar>x\<bar> = x" and ya: "\<bar>y\<bar> = y" using assms by simp_all
  have le: "ulp_exp x \<le> ulp_exp y"
    using ilog2_mono[OF assms] by (simp add: ulp_exp_def xa ya)
  show ?thesis
  proof (cases "ulp_exp x = ulp_exp y")
    case True
    have u: "(0::rat) < 2 powi ulp_exp y" by (rule pow2_pos)
    have "x / 2 powi ulp_exp y \<le> y / 2 powi ulp_exp y"
      using assms(2) u by (simp add: divide_right_mono)
    then have "round_half_even (x / 2 powi ulp_exp y) \<le> round_half_even (y / 2 powi ulp_exp y)"
      by (rule round_half_even_mono)
    then have "(of_int (round_half_even (x / 2 powi ulp_exp y)) :: rat)
                 \<le> of_int (round_half_even (y / 2 powi ulp_exp y))" by simp
    then show ?thesis using u assms y True by (simp add: fl_def)
  next
    case False
    with le have lt: "ulp_exp x < ulp_exp y" by simp
    then have ey: "ulp_exp y = ilog2 y - 52"
      by (auto simp: ulp_exp_def ya xa max_def split: if_splits)
    have lx: "ilog2 x < ilog2 y"
      using lt by (auto simp: ulp_exp_def xa ya max_def split: if_splits)
    define c :: rat where "c = 2 powi ilog2 y"
    have ex_le: "ulp_exp x \<le> ilog2 y" using lt ey by simp
    have ey_le: "ulp_exp y \<le> ilog2 y" using ey by simp
    have "x < 2 powi (ilog2 x + 1)" using ilog2_bounds(2)[OF assms(1)] .
    also have "\<dots> \<le> c" unfolding c_def using lx by (intro pow2_mono) simp
    finally have xc: "x \<le> c" by simp
    have cy: "c \<le> y" unfolding c_def using ilog2_bounds(1)[OF y] .
    have "fl x \<le> c"
      using fl_grid_le[of x "2 ^ nat (ilog2 y - ulp_exp x)"] assms(1) xc
      unfolding c_def pow2_grid[OF ex_le, symmetric] by simp
    moreover have "c \<le> fl y"
      using fl_grid_ge[of y "2 ^ nat (ilog2 y - ulp_exp y)"] y cy
      unfolding c_def pow2_grid[OF ey_le, symmetric] by simp
    ultimately show ?thesis by simp
  qed
qed

text \<open>Integers of fewer than 54 bits are floats.\<close>

lemma fl_of_int:
  assumes "\<bar>n\<bar> < 2 ^ 53"
  shows "fl (of_int n) = of_int n"
proof (cases "n = 0")
  case True
  then show ?thesis by (simp add: fl_def)
next
  case False
  define x :: rat where "x = of_int n"
  have x0: "x \<noteq> 0" using False by (simp add: x_def)
  have ax: "0 < \<bar>x\<bar>" using x0 by simp
  have "\<bar>x\<bar> < 2 powi 53" using assms unfolding x_def
    by (metis of_int_abs of_int_less_iff of_int_numeral of_int_power power_int_numeral)
  with ilog2_bounds(1)[OF ax] have "(2::rat) powi ilog2 \<bar>x\<bar> < 2 powi 53" by simp
  then have "ilog2 \<bar>x\<bar> < 53" by (rule pow2_less_cancel)
  then have e: "ulp_exp x \<le> 0" by (simp add: ulp_exp_def)
  have "(1::rat) = of_int (2 ^ nat (0 - ulp_exp x)) * 2 powi ulp_exp x"
    using pow2_grid[OF e] by simp
  then have "x = of_int (n * 2 ^ nat (0 - ulp_exp x)) * 2 powi ulp_exp x"
    by (simp add: x_def mult.assoc)
  then show ?thesis using fl_grid_eq[OF x0] unfolding x_def by blast
qed

lemma to_double_Finite:
  assumes "- (2 ^ 1024) < fl r" "fl r < 2 ^ 1024"
  shows "to_double r = Finite (fl r)"
  using assms by (simp add: to_double_def Let_def)

lemma float_of_int_exact:
  assumes "\<bar>n\<bar> < 2 ^ 53"
  shows "float_of_int n = Inr (Finite (of_int n))"
proof -
  have a: "(of_int \<bar>n\<bar> :: rat) < of_int (2 ^ 53)" using assms by (simp only: of_int_less_iff)
  have b: "\<bar>of_int n :: rat\<bar> < 2 ^ 53" using a by simp
  have c: "(2::rat) ^ 53 < 2 ^ 1024" by simp
  have "- (2 ^ 1024) < (of_int n :: rat)" "(of_int n :: rat) < 2 ^ 1024"
    using b c by linarith+
  then have "to_double (of_int n) = Finite (of_int n)"
    using to_double_Finite[of "of_int n"] fl_of_int[OF assms] by simp
  then show ?thesis by (simp add: float_of_int_def)
qed

lemma content_size_Finite:
  assumes "\<bar>sz\<bar> < 2 ^ 53"
  shows "content_size sz (Finite sf) = py_int (to_double (of_int sz * sf))"
  by (simp add: content_size_def float_of_int_exact[OF assms])

lemma to_double_value:
  assumes "fl r = v" "- (2 ^ 1024) < v" "v < 2 ^ 1024"
  shows "to_double r = Finite v"
  using to_double_Finite[of r] assms by simp

lemma content_size_value:
  assumes "\<bar>sz\<bar> < 2 ^ 53" "fl (of_int sz * sf) = v" "0 \<le> v" "v < 2 ^ 1024"
    and "of_int c \<le> v" "v < of_int c + 1"
  shows "content_size sz (Finite sf) = Inr c"
proof -
  have "to_double (of_int sz * sf) = Finite v"
    using assms(2,3,4) by (intro to_double_value) simp_all
  moreover have "\<lfloor>v\<rfloor> = c" using assms(5,6) by (rule floor_unique)
  ultimately show ?thesis using assms(3) by (simp add: content_size_Finite[OF assms(1)])
qed

lemma fl_six_fifths: "fl (6 / 5) = 5404319552844595 / 4503599627370496"
  by code_simp

lemma default_scale_factor_value:
  "default_scale_factor = Finite (5404319552844595 / 4503599627370496)"
  unfolding default_scale_factor_def
  by (rule to_double_value[OF fl_six_fifths]) simp_all

lemma fl_60: "fl (of_int 60 * (5404319552844595 / 4503599627370496)) = 72"
  by code_simp

lemma cs60: "content_size 60 default_scale_factor = Inr 72"
  unfolding default_scale_factor_value
  using content_size_value[OF _ fl_60] by simp

lemma fl_of_int_le:
  assumes "\<bar>n\<bar> \<le> 2 ^ 53"
  shows "fl (of_int n) = of_int n"
proof (cases "\<bar>n\<bar> < 2 ^ 53")
  case True
  then show ?thesis by (rule fl_of_int)
next
  case False
  with assms have "n = 2 ^ 53 \<or> n = - (2 ^ 53)" by linarith
  moreover have "fl (of_int (2 ^ 53)) = of_int (2 ^ 53)" by code_simp
  moreover have "fl (of_int (- (2 ^ 53))) = of_int (- (2 ^ 53))" by code_simp
  ultimately show ?thesis by metis
qed

section \<open>The content size and the crop\<close>

text \<open>
  C3. With \<^verbatim>\<open>size = 60\<close> and the default \<^verbatim>\<open>scale_factor = 1.2\<close> the content size is 72,
  the crop margin is 6, and the rectangle cropped from the resized 72 by 72 content is
  \<open>(6, 6, 66, 66)\<close>; the cropped content is pasted at \<open>(0, 0)\<close>.
\<close>

theorem crop_rectangle_at_60:
  "content_size 60 default_scale_factor = Inr 72 \<and>
   crop_margin 60 72 = 6 \<and>
   crop_box 60 72 = (6, 6, 66, 66) \<and>
   paste_pos 60 72 = (0, 0) \<and>
   compose flt img default_scale_factor 60 =
     (case resize flt img (72, 72) of
        Inl e \<Rightarrow> Inl e
      | Inr scaled_content \<Rightarrow>
          (case crop scaled_content (6, 6, 66, 66) of
             Inl e \<Rightarrow> Inl e
           | Inr cropped \<Rightarrow>
               paste \<lparr>mode = ''RGBA'', width = 60, height = 60, data = Some (\<lambda>x y. (0, 0, 0, 0))\<rparr>
                 cropped (0, 0) cropped))"
  by (simp add: cs60 compose_def crop_margin_def crop_box_def paste_pos_def Image_new_def
      split: sum.splits)

text \<open>
  C2, as stated: for every positive size and every scale factor above 1 the content size
  is strictly greater than the size. It is not: \<^verbatim>\<open>int(29 * 1.03125)\<close> is 29.
\<close>

theorem content_size_not_greater:
  "(0::int) < 29 \<and> (1::rat) < 33 / 32 \<and> content_size 29 (Finite (33 / 32)) = Inr 29"
proof -
  have "fl (of_int 29 * (33 / 32)) = 957 / 32" by code_simp
  from content_size_value[OF _ this] show ?thesis by simp
qed

text \<open>
  C2, amended: for a positive size (below \<open>2 ^ 53\<close>) and a finite scale factor of at least
  1 whose product with the size does not overflow, the content size is at least the size,
  and it is strictly greater, so that the crop branch is taken, whenever
  \<open>size * (scale_factor - 1) \<ge> 1\<close>.
\<close>

theorem content_size_at_least_size:
  assumes "0 < sz" and "sz < 2 ^ 53" and "1 \<le> sf"
    and "fmul (Finite (of_int sz)) (Finite sf) \<noteq> PosInf"
  shows "\<exists>cs. content_size sz (Finite sf) = Inr cs \<and> sz \<le> cs \<and>
              (1 \<le> of_int sz * (sf - 1) \<longrightarrow> sz < cs)"
proof -
  define x :: rat where "x = of_int sz * sf"
  have szr: "(0::rat) < of_int sz" using assms(1) by simp
  have le: "of_int sz \<le> x" unfolding x_def using szr assms(3) by simp
  have a1: "\<bar>sz\<bar> < 2 ^ 53" using assms(1,2) by simp
  have "fl (of_int sz) \<le> fl x" using szr le by (rule fl_mono_pos)
  then have lo: "of_int sz \<le> fl x" by (simp add: fl_of_int[OF a1])
  have hi: "fl x < 2 ^ 1024"
    using assms(4) by (simp add: x_def to_double_def Let_def split: if_splits)
  have "- (2 ^ 1024) < fl x" using lo szr by (simp add: less_le_trans[of _ 0] less_le_trans[OF szr])
  then have td: "to_double x = Finite (fl x)" using hi by (rule to_double_Finite)
  have nonneg: "0 \<le> fl x" using lo szr by simp
  have cs: "content_size sz (Finite sf) = Inr \<lfloor>fl x\<rfloor>"
    using td nonneg by (simp add: content_size_Finite[OF a1] x_def)
  have ge: "sz \<le> \<lfloor>fl x\<rfloor>" using lo by (simp add: le_floor_iff)
  have gt: "sz < \<lfloor>fl x\<rfloor>" if "1 \<le> of_int sz * (sf - 1)"
  proof -
    have x1: "of_int (sz + 1) \<le> x" using that by (simp add: x_def algebra_simps)
    have a2: "\<bar>sz + 1\<bar> \<le> 2 ^ 53" using assms(1,2) by simp
    have p: "(0::rat) < of_int (sz + 1)" using assms(1) by simp
    have "fl (of_int (sz + 1)) \<le> fl x" using p x1 by (rule fl_mono_pos)
    then have "of_int (sz + 1) \<le> fl x" by (simp only: fl_of_int_le[OF a2])
    then have "sz + 1 \<le> \<lfloor>fl x\<rfloor>" by (simp only: le_floor_iff)
    then show ?thesis by simp
  qed
  show ?thesis using cs ge gt by blast
qed

theorem content_size_at_least_size_witness:
  "(0::int) < 60 \<and> (60::int) < 2 ^ 53 \<and> (1::rat) \<le> 5404319552844595 / 4503599627370496 \<and>
   fmul (Finite (of_int 60)) (Finite (5404319552844595 / 4503599627370496)) \<noteq> PosInf \<and>
   (\<exists>cs. content_size 60 (Finite (5404319552844595 / 4503599627370496)) = Inr cs \<and> 60 \<le> cs \<and>
         (1 \<le> of_int 60 * (5404319552844595 / 4503599627370496 - 1 :: rat) \<longrightarrow> 60 < cs))"
proof -
  have "to_double (of_int 60 * (5404319552844595 / 4503599627370496)) = Finite 72"
    by (rule to_double_value[OF fl_60]) simp_all
  then have f: "fmul (Finite (of_int 60)) (Finite (5404319552844595 / 4503599627370496)) \<noteq> PosInf"
    by (simp only: fmul.simps pyfloat.distinct not_False_eq_True)
  have h1: "(0::int) < 60" and h2: "(60::int) < 2 ^ 53"
    and h3: "(1::rat) \<le> 5404319552844595 / 4503599627370496" by simp_all
  from content_size_at_least_size[OF h1 h2 h3 f] f h3 show ?thesis by simp
qed

section \<open>The image built for one size\<close>

lemma unat_byte: "unat (s :: 8 word) < 256"
  using unsigned_less[of s, where 'a = nat] by simp

lemma blend8_opaque: "blend8 255 d s = s"
proof -
  have "div255 (unat s * 255) = unat s"
    using unat_byte[of s] unfolding div255_def Let_def by arith
  then show ?thesis by (simp add: blend8_def)
qed

lemma blend8_transparent: "blend8 0 d s = d"
proof -
  have "div255 (unat d * 255) = unat d"
    using unat_byte[of d] unfolding div255_def Let_def by arith
  then show ?thesis by (simp add: blend8_def)
qed

lemma blend_opaque: "blend 255 d s = s"
  by (cases d; cases s) (simp add: blend8_opaque)

lemma blend_transparent: "blend 0 d s = d"
  by (cases d; cases s) (simp add: blend8_transparent)

lemma resize_Inr:
  assumes "resize flt im (a, b) = Inr sc"
  shows "width sc = a \<and> height sc = b \<and> mode sc = mode im \<and> (\<exists>q. data sc = Some q)"
  using assms
  by (auto simp: resize_def load_def split: option.splits sum.splits if_splits)

lemma crop_Inr:
  assumes "crop im (l, u, r, d) = Inr c"
  shows "width c = r - l \<and> height c = d - u \<and> mode c = mode im \<and> (\<exists>q. data c = Some q)"
  using assms
  by (auto simp: crop_def load_def split: option.splits sum.splits if_splits)

lemma paste_Inr:
  assumes "paste dst im pos msk = Inr r"
  shows "width r = width dst \<and> height r = height dst \<and> mode r = mode dst \<and>
         (\<exists>q. data r = Some q)"
  using assms
  by (auto simp: paste_def load_def split: prod.splits option.splits sum.splits if_splits)

lemma compose_Inr:
  assumes "compose flt img sf sz = Inr final"
  shows "mode final = ''RGBA'' \<and> width final = sz \<and> height final = sz \<and>
         (\<exists>p. data final = Some p)"
proof -
  from assms obtain cs scaled cropped where
    p: "paste \<lparr>mode = ''RGBA'', width = sz, height = sz, data = Some (\<lambda>x y. (0, 0, 0, 0))\<rparr>
          cropped (paste_pos sz cs) cropped = Inr final"
    by (auto simp: compose_def Image_new_def split: sum.splits if_splits)
  from paste_Inr[OF p] show ?thesis by simp
qed

text \<open>Without a crop, the content lies in the square of side \<open>cs\<close> at offset
  \<open>(sz - cs) div 2\<close>; every pixel there is the content's pixel blended onto transparent
  black by its own alpha, and every other pixel is transparent black.\<close>

lemma compose_no_crop:
  assumes "compose flt img sf sz = Inr final" and "content_size sz sf = Inr cs" and "cs \<le> sz"
  shows "\<exists>sc q. resize flt img (cs, cs) = Inr sc \<and> data sc = Some q \<and>
           final = \<lparr>mode = ''RGBA'', width = sz, height = sz, data = Some (\<lambda>x y.
             if (sz - cs) div 2 \<le> x \<and> x < (sz - cs) div 2 + cs \<and> 0 \<le> x \<and> x < sz \<and>
                (sz - cs) div 2 \<le> y \<and> y < (sz - cs) div 2 + cs \<and> 0 \<le> y \<and> y < sz
             then blend (alpha (q (x - (sz - cs) div 2) (y - (sz - cs) div 2))) (0, 0, 0, 0)
                    (q (x - (sz - cs) div 2) (y - (sz - cs) div 2))
             else (0, 0, 0, 0))\<rparr>"
proof -
  from assms obtain sc where sc: "resize flt img (cs, cs) = Inr sc"
    by (auto simp: compose_def split: sum.splits)
  from resize_Inr[OF sc] obtain q where q: "data sc = Some q"
    and d: "width sc = cs" "height sc = cs" by auto
  have "final = \<lparr>mode = ''RGBA'', width = sz, height = sz, data = Some (\<lambda>x y.
             if (sz - cs) div 2 \<le> x \<and> x < (sz - cs) div 2 + cs \<and> 0 \<le> x \<and> x < sz \<and>
                (sz - cs) div 2 \<le> y \<and> y < (sz - cs) div 2 + cs \<and> 0 \<le> y \<and> y < sz
             then blend (alpha (q (x - (sz - cs) div 2) (y - (sz - cs) div 2))) (0, 0, 0, 0)
                    (q (x - (sz - cs) div 2) (y - (sz - cs) div 2))
             else (0, 0, 0, 0))\<rparr>"
    using assms sc q d
    by (auto simp: compose_def Image_new_def paste_def paste_pos_def load_def split: if_splits)
  with sc q show ?thesis by blast
qed

section \<open>Saving one image, and the loop\<close>

lemma files_print [simp]: "files (print w l) = files w"
  by (simp add: print_def)

lemma console_print [simp]: "console (print w l) = console w @ [l]"
  by (simp add: print_def)

lemma render_Inr:
  assumes "render flt img od sf sz fn w = Inr w'"
  shows "\<exists>final. compose flt img sf sz = Inr final \<and>
           w' = print (w\<lparr>files := (files w)(path_join od fn \<mapsto> File (Img ''PNG'' final))\<rparr>)
                  (Generated sz fn)"
  using assms
  by (auto simp: render_def save_def
      split: sum.splits if_splits option.splits node.splits)

lemma filenames_set: "fn \<in> set (filenames tbl) \<longleftrightarrow> (\<exists>sz. (sz, Some fn) \<in> set tbl)"
  by (induction tbl rule: filenames.induct) auto

lemma generate_loop_append:
  "generate_loop flt img od sf (pre @ post) w =
     (if fst (generate_loop flt img od sf pre w)
      then generate_loop flt img od sf post (snd (generate_loop flt img od sf pre w))
      else generate_loop flt img od sf pre w)"
  by (induction flt img od sf pre w rule: generate_loop.induct) (auto split: sum.splits)

text \<open>The loop touches no path but those of its entries.\<close>

lemma generate_loop_other_paths:
  assumes "generate_loop flt img od sf tbl w = (b, w')"
    and "p \<notin> path_join od ` set (filenames tbl)"
  shows "files w' p = files w p"
  using assms
proof (induction flt img od sf tbl w rule: generate_loop.induct)
  case (3 flt img od sf sz fn rest w)
  show ?case
  proof (cases "render flt img od sf sz fn w")
    case (Inl e)
    with 3 show ?thesis by auto
  next
    case (Inr w1)
    from render_Inr[OF Inr] obtain final where
      w1: "w1 = print (w\<lparr>files := (files w)(path_join od fn \<mapsto> File (Img ''PNG'' final))\<rparr>)
                 (Generated sz fn)" by blast
    from 3 Inr have "files w' p = files w1 p" by auto
    also have "\<dots> = files w p" using "3.prems"(2) by (auto simp: w1)
    finally show ?thesis .
  qed
qed auto

text \<open>After a successful loop over entries with distinct paths, each entry's path holds
  the PNG of the image composed for that entry's size.\<close>

lemma generate_loop_written:
  assumes "generate_loop flt img od sf tbl w = (True, w')"
    and "distinct (map (path_join od) (filenames tbl))"
    and "(sz, Some fn) \<in> set tbl"
  shows "\<exists>final. compose flt img sf sz = Inr final \<and>
           files w' (path_join od fn) = Some (File (Img ''PNG'' final))"
  using assms
proof (induction flt img od sf tbl w rule: generate_loop.induct)
  case (3 flt img od sf sz' fn' rest w)
  from "3.prems"(1) obtain w1 where r: "render flt img od sf sz' fn' w = Inr w1"
    and l: "generate_loop flt img od sf rest w1 = (True, w')"
    by (auto split: sum.splits)
  from render_Inr[OF r] obtain final where c: "compose flt img sf sz' = Inr final" and
    w1: "w1 = print (w\<lparr>files := (files w)(path_join od fn' \<mapsto> File (Img ''PNG'' final))\<rparr>)
               (Generated sz' fn')" by blast
  show ?case
  proof (cases "(sz, Some fn) = (sz', Some fn')")
    case True
    from "3.prems"(2) have "path_join od fn' \<notin> path_join od ` set (filenames rest)" by simp
    from generate_loop_other_paths[OF l this]
    have "files w' (path_join od fn') = Some (File (Img ''PNG'' final))" by (simp add: w1)
    with c True show ?thesis by auto
  next
    case False
    with "3.prems"(3) have "(sz, Some fn) \<in> set rest" by auto
    moreover from "3.prems"(2) have "distinct (map (path_join od) (filenames rest))" by simp
    ultimately show ?thesis using "3.IH"[OF r l] by blast
  qed
qed auto

lemma path_join_inj:
  assumes "take 1 b \<noteq> ''/''" and "take 1 b' \<noteq> ''/''" and "path_join a b = path_join a b'"
  shows "b = b'"
  using assms by (auto simp: path_join_def split: if_splits)

lemma filenames_UNIQUE_SIZES:
  "filenames UNIQUE_SIZES =
     [''writing shed iPhone Settings.png'', ''writing shed spotlight.png'',
      ''writing shed settings 2.png'', ''writing shed spotlight 3.png'',
      ''writing shed iPad.png'', ''writing shed spolight 2.png'',
      ''writing shed settings 3.png'', ''writing shed iphone 2.png'',
      ''writing shed ipad 2.png'', ''writing shed iPad Pro 2.png'',
      ''writing shed iphone 3.png'', ''writing shed 1024.png'']"
  by (simp add: UNIQUE_SIZES_def)

lemma distinct_filenames: "distinct (filenames UNIQUE_SIZES)"
  unfolding filenames_UNIQUE_SIZES by simp

lemma relative_filenames: "fn \<in> set (filenames UNIQUE_SIZES) \<Longrightarrow> take 1 fn \<noteq> ''/''"
  unfolding filenames_UNIQUE_SIZES by auto

lemma distinct_paths: "distinct (map (path_join od) (filenames UNIQUE_SIZES))"
proof -
  have "inj_on (path_join od) (set (filenames UNIQUE_SIZES))"
  proof (rule inj_onI)
    fix x y
    assume "x \<in> set (filenames UNIQUE_SIZES)" and "y \<in> set (filenames UNIQUE_SIZES)"
      and "path_join od x = path_join od y"
    then show "x = y"
      by (intro path_join_inj[of x y od] relative_filenames)
  qed
  with distinct_filenames show ?thesis by (simp add: distinct_map)
qed

lemma open_source_Inr:
  assumes "open_source src sf w = (Inr img, w1)"
  shows "\<exists>img0. Image_open (files w) src = Inr img0 \<and> img = img0\<lparr>mode := ''RGBA''\<rparr> \<and>
           files w1 = files w"
proof -
  from assms obtain img0 where o: "Image_open (files w) src = Inr img0"
    by (auto simp: open_source_def split: sum.splits)
  have m: "mode img0 = ''RGBA'' \<Longrightarrow> img0\<lparr>mode := ''RGBA''\<rparr> = img0"
    by (cases img0) simp
  from assms o have "img = img0\<lparr>mode := ''RGBA''\<rparr> \<and> files w1 = files w"
    by (auto simp: open_source_def convert_def load_def Let_def m
        split: sum.splits if_splits option.splits)
  with o show ?thesis by blast
qed

lemma open_source_not_True: "open_source src sf w \<noteq> (Inl (Inr True), w1)"
  by (auto simp: open_source_def Let_def split: sum.splits if_splits)

lemma generate_icons_True:
  assumes "fst (generate_icons flt src od sf w) = Inr True"
  shows "\<exists>img w1. open_source src sf w = (Inr img, w1) \<and>
           generate_loop flt img od sf UNIQUE_SIZES w1 = (True, snd (generate_icons flt src od sf w))"
  using assms open_source_not_True[of src sf w]
  by (auto simp: generate_icons_def split: prod.splits sum.splits)

section \<open>The default scale factor on the table\<close>

text \<open>The content sizes \<^verbatim>\<open>int(size * 1.2)\<close> of the twelve entries that have a file name, and
  the percentage \<^verbatim>\<open>int((1.2 - 1) * 100)\<close> printed in the header, which is 19.\<close>

lemma fl_29: "fl (of_int 29 * (5404319552844595 / 4503599627370496)) = 2448832297382707 / 70368744177664"
  by code_simp

lemma cs29: "content_size 29 default_scale_factor = Inr 34"
  unfolding default_scale_factor_value
  using content_size_value[OF _ fl_29] by simp

lemma fl_40: "fl (of_int 40 * (5404319552844595 / 4503599627370496)) = 48"
  by code_simp

lemma cs40: "content_size 40 default_scale_factor = Inr 48"
  unfolding default_scale_factor_value
  using content_size_value[OF _ fl_40] by simp

lemma fl_58: "fl (of_int 58 * (5404319552844595 / 4503599627370496)) = 2448832297382707 / 35184372088832"
  by code_simp

lemma cs58: "content_size 58 default_scale_factor = Inr 69"
  unfolding default_scale_factor_value
  using content_size_value[OF _ fl_58] by simp

lemma fl_76: "fl (of_int 76 * (5404319552844595 / 4503599627370496)) = 6417629469002957 / 70368744177664"
  by code_simp

lemma cs76: "content_size 76 default_scale_factor = Inr 91"
  unfolding default_scale_factor_value
  using content_size_value[OF _ fl_76] by simp

lemma fl_80: "fl (of_int 80 * (5404319552844595 / 4503599627370496)) = 96"
  by code_simp

lemma cs80: "content_size 80 default_scale_factor = Inr 96"
  unfolding default_scale_factor_value
  using content_size_value[OF _ fl_80] by simp

lemma fl_87: "fl (of_int 87 * (5404319552844595 / 4503599627370496)) = 7346496892148121 / 70368744177664"
  by code_simp

lemma cs87: "content_size 87 default_scale_factor = Inr 104"
  unfolding default_scale_factor_value
  using content_size_value[OF _ fl_87] by simp

lemma fl_120: "fl (of_int 120 * (5404319552844595 / 4503599627370496)) = 144"
  by code_simp

lemma cs120: "content_size 120 default_scale_factor = Inr 144"
  unfolding default_scale_factor_value
  using content_size_value[OF _ fl_120] by simp

lemma fl_152: "fl (of_int 152 * (5404319552844595 / 4503599627370496)) = 6417629469002957 / 35184372088832"
  by code_simp

lemma cs152: "content_size 152 default_scale_factor = Inr 182"
  unfolding default_scale_factor_value
  using content_size_value[OF _ fl_152] by simp

lemma fl_167: "fl (of_int 167 * (5404319552844595 / 4503599627370496)) = 7050948166601933 / 35184372088832"
  by code_simp

lemma cs167: "content_size 167 default_scale_factor = Inr 200"
  unfolding default_scale_factor_value
  using content_size_value[OF _ fl_167] by simp

lemma fl_180: "fl (of_int 180 * (5404319552844595 / 4503599627370496)) = 216"
  by code_simp

lemma cs180: "content_size 180 default_scale_factor = Inr 216"
  unfolding default_scale_factor_value
  using content_size_value[OF _ fl_180] by simp

lemma fl_1024: "fl (of_int 1024 * (5404319552844595 / 4503599627370496)) = 5404319552844595 / 4398046511104"
  by code_simp

lemma cs1024: "content_size 1024 default_scale_factor = Inr 1228"
  unfolding default_scale_factor_value
  using content_size_value[OF _ fl_1024] by simp

lemma content_sizes_default:
  assumes "(sz, Some fn) \<in> set UNIQUE_SIZES"
  shows "\<exists>cs. content_size sz default_scale_factor = Inr cs \<and> 1 \<le> cs \<and> 0 \<le> sz"
  using assms unfolding UNIQUE_SIZES_def
  by (auto simp: cs29 cs40 cs58 cs60 cs76 cs80 cs87 cs120 cs152 cs167 cs180 cs1024)

lemma fl_minus_one: "fl (5404319552844595 / 4503599627370496 - 1) = 900719925474099 / 4503599627370496"
  by code_simp

lemma fl_percent: "fl (900719925474099 / 4503599627370496 * 100) = 5629499534213119 / 281474976710656"
  by code_simp

lemma percent_default:
  "py_int (fmul (fsub default_scale_factor (Finite 1)) (Finite 100)) = Inr 19"
proof -
  have a: "to_double (5404319552844595 / 4503599627370496 - 1) = Finite (900719925474099 / 4503599627370496)"
    by (rule to_double_value[OF fl_minus_one]) simp_all
  have b: "to_double (900719925474099 / 4503599627370496 * 100) =
             Finite (5629499534213119 / 281474976710656)"
    by (rule to_double_value[OF fl_percent]) simp_all
  have c: "\<lfloor>5629499534213119 / 281474976710656 :: rat\<rfloor> = 19"
    by (rule floor_unique) simp_all
  show ?thesis
    unfolding default_scale_factor_value by (simp only: fsub.simps fmul.simps a b py_int.simps) (simp add: c)
qed

text \<open>The header of a run on a source that opens.\<close>

lemma open_source_opened:
  assumes "Image_open (files w) src = Inr img0"
    and "py_int (fmul (fsub sf (Finite 1)) (Finite 100)) = Inr pct"
  shows "open_source src sf w =
           (if mode img0 \<noteq> ''RGBA''
            then (case convert img0 ''RGBA'' of
                    Inl e \<Rightarrow> Inl (Inl e)
                  | Inr img' \<Rightarrow> Inr img')
            else Inr img0,
            print (print w (SourceImage (width img0) (height img0))) (ScaleFactor sf pct))"
  using assms by (simp add: open_source_def Let_def split: sum.splits)

lemmas open_source_default = open_source_opened[OF _ percent_default]

lemma Image_open_world_with [simp]: "Image_open (files (world_with im)) source = Inr im"
  by (simp add: world_with_def Image_open_def source_def output_path_def)

lemma exists_world_with:
  "path_exists (files (world_with im)) source" "path_exists (files (world_with im)) output_path"
  by (simp_all add: world_with_def path_exists_def source_def output_path_def)

section \<open>Control flow\<close>

text \<open>
  C6. An entry without a file name is skipped: wherever it stands in the table, the loop
  does what it does on the table without it, so nothing is written for it and the
  entries after it are processed as before. In \<^verbatim>\<open>UNIQUE_SIZES\<close> this is the first entry,
  size 20.
\<close>

theorem absent_filename_skipped:
  "generate_loop flt img od sf (pre @ (sz, None) # post) w =
     generate_loop flt img od sf (pre @ post) w \<and>
   generate_loop flt img od sf UNIQUE_SIZES w =
     generate_loop flt img od sf (tl UNIQUE_SIZES) w \<and>
   hd UNIQUE_SIZES = (20, None)"
  by (simp add: generate_loop_append UNIQUE_SIZES_def)

text \<open>
  C7. When the source path does not exist, \<^verbatim>\<open>__main__\<close> prints the error and exits with
  status 1 without calling \<^verbatim>\<open>generate_icons\<close>: the file system is left as it was.
\<close>

theorem source_missing_exits:
  assumes "\<not> path_exists (files w) source"
  shows "main flt w = (Exit 1, print w (SourceNotFound source)) \<and>
         exit_status (fst (main flt w)) = 1 \<and>
         files (snd (main flt w)) = files w"
  using assms by (simp add: main_def)

theorem source_missing_exits_witness:
  "\<not> path_exists (files \<lparr>files = Map.empty, console = []\<rparr>) source \<and>
   exit_status (fst (main nearest \<lparr>files = Map.empty, console = []\<rparr>)) = 1 \<and>
   files (snd (main nearest \<lparr>files = Map.empty, console = []\<rparr>)) = Map.empty"
proof -
  have h: "\<not> path_exists (files \<lparr>files = Map.empty, console = []\<rparr>) source"
    by (simp add: path_exists_def)
  from source_missing_exits[OF h, of nearest] h show ?thesis by simp
qed

text \<open>
  C4. Fail-fast: when the header succeeds, the entries before \<open>(sz, fn)\<close> are rendered,
  and rendering \<open>(sz, fn)\<close> raises \<open>e\<close>, then the loop stops there whatever entries follow
  (\<open>rest\<close> is arbitrary), \<^verbatim>\<open>generate_icons\<close> prints the error for that size and returns
  \<^verbatim>\<open>False\<close> with the file system of the entries before, and \<^verbatim>\<open>__main__\<close> exits with
  status 1.
\<close>

theorem fail_fast:
  assumes "open_source src sf w = (Inr img, w1)"
    and "generate_loop flt img od sf pre w1 = (True, w2)"
    and "render flt img od sf sz fn w2 = Inl e"
    and "UNIQUE_SIZES = pre @ (sz, Some fn) # post"
  shows "generate_loop flt img od sf (pre @ (sz, Some fn) # rest) w1 =
           (False, print w2 (ErrorGenerating sz e)) \<and>
         generate_icons flt src od sf w = (Inr False, print w2 (ErrorGenerating sz e)) \<and>
         files (snd (generate_icons flt src od sf w)) = files w2 \<and>
         (src = source \<and> od = output_path \<and> sf = default_scale_factor \<and>
          w = print w0 (Generating source) \<and>
          path_exists (files w0) source \<and> path_exists (files w0) output_path \<longrightarrow>
            main flt w0 = (Exit 1, print (print w2 (ErrorGenerating sz e)) FailedSome) \<and>
            exit_status (fst (main flt w0)) = 1)"
proof -
  have l: "generate_loop flt img od sf (pre @ (sz, Some fn) # rest) w1 =
             (False, print w2 (ErrorGenerating sz e))" for rest
    using assms(2,3) by (simp add: generate_loop_append)
  have g: "generate_icons flt src od sf w = (Inr False, print w2 (ErrorGenerating sz e))"
    using assms(1) l[of post] by (simp add: generate_icons_def assms(4))
  have m: "main flt w0 = (Exit 1, print (print w2 (ErrorGenerating sz e)) FailedSome)"
    if "src = source" "od = output_path" "sf = default_scale_factor"
      "w = print w0 (Generating source)"
      "path_exists (files w0) source" "path_exists (files w0) output_path"
    using g that by (simp add: main_def)
  show ?thesis using l g m by simp
qed

theorem fail_fast_witness:
  "open_source source default_scale_factor (print (world_with truncated_rgba) (Generating source)) =
     (Inr truncated_rgba,
      print (print (print (world_with truncated_rgba) (Generating source)) (SourceImage 1024 1024))
        (ScaleFactor default_scale_factor 19)) \<and>
   generate_loop nearest truncated_rgba output_path default_scale_factor [(20, None)]
     (print (print (print (world_with truncated_rgba) (Generating source)) (SourceImage 1024 1024))
        (ScaleFactor default_scale_factor 19)) =
     (True, print (print (print (world_with truncated_rgba) (Generating source)) (SourceImage 1024 1024))
        (ScaleFactor default_scale_factor 19)) \<and>
   render nearest truncated_rgba output_path default_scale_factor 29
     ''writing shed iPhone Settings.png''
     (print (print (print (world_with truncated_rgba) (Generating source)) (SourceImage 1024 1024))
        (ScaleFactor default_scale_factor 19)) = Inl OSError \<and>
   UNIQUE_SIZES = [(20, None)] @ (29, Some ''writing shed iPhone Settings.png'') # drop 2 UNIQUE_SIZES \<and>
   path_exists (files (world_with truncated_rgba)) source \<and>
   path_exists (files (world_with truncated_rgba)) output_path \<and>
   fst (generate_icons nearest source output_path default_scale_factor
     (print (world_with truncated_rgba) (Generating source))) = Inr False \<and>
   exit_status (fst (main nearest (world_with truncated_rgba))) = 1"
proof -
  define w where "w = print (world_with truncated_rgba) (Generating source)"
  define w1 where "w1 = print (print w (SourceImage 1024 1024)) (ScaleFactor default_scale_factor 19)"
  have h1: "open_source source default_scale_factor w = (Inr truncated_rgba, w1)"
    unfolding w_def w1_def
    by (simp add: open_source_default truncated_rgba_def)
  have h2: "generate_loop nearest truncated_rgba output_path default_scale_factor [(20, None)] w1 =
              (True, w1)" by simp
  have h3: "render nearest truncated_rgba output_path default_scale_factor 29
              ''writing shed iPhone Settings.png'' w1 = Inl OSError"
    by (simp add: render_def compose_def cs29 resize_def load_def truncated_rgba_def)
  have h4: "UNIQUE_SIZES =
              [(20, None)] @ (29, Some ''writing shed iPhone Settings.png'') # drop 2 UNIQUE_SIZES"
    by (simp add: UNIQUE_SIZES_def)
  note e = exists_world_with[of truncated_rgba]
  from fail_fast[OF h1 h2 h3 h4, of "[]" "world_with truncated_rgba"] h1 h2 h3 h4 e
  show ?thesis unfolding w_def w1_def by simp
qed

text \<open>
  C5. The claim is that no exception leaves \<^verbatim>\<open>generate_icons\<close>. The conversion to
  \<^verbatim>\<open>RGBA\<close> on lines 73 and 74 stands between the two \<^verbatim>\<open>try\<close> blocks: on a source file
  that is not \<^verbatim>\<open>RGBA\<close> and whose data stream is cut short, \<^verbatim>\<open>Image.open\<close> succeeds,
  \<^verbatim>\<open>convert\<close> raises, and the exception reaches the caller; \<^verbatim>\<open>__main__\<close> ends with a
  traceback.
\<close>

theorem truncated_source_raises:
  "fst (generate_icons flt source output_path default_scale_factor
          (print (world_with truncated_rgb) (Generating source))) = Inl OSError \<and>
   fst (main flt (world_with truncated_rgb)) = Uncaught OSError"
proof -
  have o: "open_source source default_scale_factor
             (print (world_with truncated_rgb) (Generating source)) =
           (Inl (Inl OSError),
            print (print (print (world_with truncated_rgb) (Generating source))
              (SourceImage 1024 1024)) (ScaleFactor default_scale_factor 19))"
    by (simp add: open_source_default truncated_rgb_def
        convert_def load_def)
  then have g: "fst (generate_icons flt source output_path default_scale_factor
          (print (world_with truncated_rgb) (Generating source))) = Inl OSError"
    by (simp add: generate_icons_def)
  then obtain w' where "generate_icons flt source output_path default_scale_factor
          (print (world_with truncated_rgb) (Generating source)) = (Inl OSError, w')"
    by (metis prod.collapse)
  then have "fst (main flt (world_with truncated_rgb)) = Uncaught OSError"
    using exists_world_with[of truncated_rgb] by (simp add: main_def)
  with g show ?thesis by simp
qed

text \<open>That conversion is the only place an exception can leave from: \<^verbatim>\<open>generate_icons\<close>
  raises exactly when the source opens, the header is printed, the image is not
  \<^verbatim>\<open>RGBA\<close> and its data cannot be loaded.\<close>

lemma generate_icons_raises_iff:
  "(\<exists>e. fst (generate_icons flt src od sf w) = Inl e) \<longleftrightarrow>
   (\<exists>img0 pct. Image_open (files w) src = Inr img0 \<and>
      py_int (fmul (fsub sf (Finite 1)) (Finite 100)) = Inr pct \<and>
      mode img0 \<noteq> ''RGBA'' \<and> data img0 = None)"
  by (auto simp: generate_icons_def open_source_def convert_def load_def Let_def
      split: prod.splits sum.splits if_splits option.splits)

section \<open>When a run succeeds\<close>

lemma resize_succeeds:
  assumes "data img = Some p" and "\<forall>s d. \<exists>q. flt p s d = Inr q" and "1 \<le> cs"
  shows "\<exists>sc. resize flt img (cs, cs) = Inr sc"
proof -
  obtain q where "flt p (width img, height img) (cs, cs) = Inr q" using assms(2) by blast
  then show ?thesis using assms(1,3) by (simp add: resize_def load_def)
qed

lemma compose_succeeds:
  assumes "data img = Some p" and "\<forall>s d. \<exists>q. flt p s d = Inr q"
    and "content_size sz sf = Inr cs" and "1 \<le> cs" and "0 \<le> sz"
  shows "\<exists>final. compose flt img sf sz = Inr final"
proof -
  obtain sc where sc: "resize flt img (cs, cs) = Inr sc"
    using resize_succeeds[where flt = flt, OF assms(1,2,4)] by blast
  from resize_Inr[OF sc] obtain q where q: "data sc = Some q" by blast
  show ?thesis
  proof (cases "cs > sz")
    case True
    have "\<exists>c. crop sc (crop_box sz cs) = Inr c"
      using q assms(5) by (simp add: crop_def crop_box_def load_def)
    then obtain c where c: "crop sc (crop_box sz cs) = Inr c" by blast
    from crop_Inr[OF c[unfolded crop_box_def]] obtain qc where qc: "data c = Some qc" by blast
    show ?thesis
      using assms(3,5) sc c qc True
      by (simp add: compose_def Image_new_def paste_def load_def split: prod.splits)
  next
    case False
    then show ?thesis
      using assms(3,5) sc q
      by (simp add: compose_def Image_new_def paste_def load_def split: prod.splits)
  qed
qed

lemma render_succeeds:
  assumes "data img = Some p" and "\<forall>s d. \<exists>q. flt p s d = Inr q"
    and "content_size sz sf = Inr cs" and "1 \<le> cs" and "0 \<le> sz"
    and "case files w (path_join od fn) of Some Dir \<Rightarrow> False | _ \<Rightarrow> True"
    and "is_dir (files w) (dirname (path_join od fn))"
  shows "\<exists>final. render flt img od sf sz fn w =
           Inr (print (w\<lparr>files := (files w)(path_join od fn \<mapsto> File (Img ''PNG'' final))\<rparr>)
                  (Generated sz fn))"
proof -
  obtain final where f: "compose flt img sf sz = Inr final"
    using compose_succeeds[where flt = flt, OF assms(1-5)] by blast
  from compose_Inr[OF f] obtain pf where "data final = Some pf" by blast
  then show ?thesis
    using f assms(6,7)
    by (auto simp: render_def save_def load_def split: option.splits node.splits)
qed

text \<open>The loop returns \<^verbatim>\<open>True\<close> when the source raster loads, the resampler does not
  fail on it, every entry's content size is at least 1, and every entry's path is free
  for a file in an existing directory.\<close>

lemma generate_loop_succeeds:
  assumes "data img = Some p" and "\<forall>s d. \<exists>q. flt p s d = Inr q"
    and "\<And>sz fn. (sz, Some fn) \<in> set tbl \<Longrightarrow>
           \<exists>cs. content_size sz sf = Inr cs \<and> 1 \<le> cs \<and> 0 \<le> sz"
    and "\<And>fn. fn \<in> set (filenames tbl) \<Longrightarrow>
           (case files w (path_join od fn) of Some Dir \<Rightarrow> False | _ \<Rightarrow> True) \<and>
           is_dir (files w) (dirname (path_join od fn))"
  shows "fst (generate_loop flt img od sf tbl w)"
  using assms(3,4)
proof (induction tbl arbitrary: w)
  case Nil
  then show ?case by simp
next
  case (Cons entry rest)
  obtain sz f where entry: "entry = (sz, f)" by (cases entry)
  show ?case
  proof (cases f)
    case None
    have "fst (generate_loop flt img od sf rest w)"
      using Cons.prems by (intro Cons.IH) (auto simp: entry None)
    then show ?thesis by (simp add: entry None)
  next
    case (Some fn)
    from Cons.prems(1)[of sz fn] obtain cs where
      cs: "content_size sz sf = Inr cs" "1 \<le> cs" "0 \<le> sz" by (auto simp: entry Some)
    from Cons.prems(2)[of fn] have
      free: "case files w (path_join od fn) of Some Dir \<Rightarrow> False | _ \<Rightarrow> True"
      and dir: "is_dir (files w) (dirname (path_join od fn))" by (auto simp: entry Some)
    from render_succeeds[where flt = flt, OF assms(1,2) cs free dir] obtain final where
      r: "render flt img od sf sz fn w =
            Inr (print (w\<lparr>files := (files w)(path_join od fn \<mapsto> File (Img ''PNG'' final))\<rparr>)
                   (Generated sz fn))" by blast
    define w1 where "w1 =
      print (w\<lparr>files := (files w)(path_join od fn \<mapsto> File (Img ''PNG'' final))\<rparr>) (Generated sz fn)"
    have "fst (generate_loop flt img od sf rest w1)"
    proof (intro Cons.IH)
      fix sz' fn'
      assume "(sz', Some fn') \<in> set rest"
      then show "\<exists>cs. content_size sz' sf = Inr cs \<and> 1 \<le> cs \<and> 0 \<le> sz'"
        using Cons.prems(1)[of sz' fn'] by simp
    next
      fix fn'
      assume "fn' \<in> set (filenames rest)"
      then have "fn' \<in> set (filenames (entry # rest))" by (simp add: entry Some)
      from Cons.prems(2)[OF this] free
      show "(case files w1 (path_join od fn') of Some Dir \<Rightarrow> False | _ \<Rightarrow> True) \<and>
            is_dir (files w1) (dirname (path_join od fn'))"
        by (auto simp: w1_def is_dir_def split: option.splits node.splits)
    qed
    then show ?thesis using r by (simp add: entry Some w1_def)
  qed
qed

lemma sizes_small:
  assumes "(sz, f) \<in> set UNIQUE_SIZES"
  shows "0 < sz \<and> sz < 2 ^ 53"
  using assms unfolding UNIQUE_SIZES_def by auto

lemma content_size_one:
  assumes "0 \<le> sz" and "sz < 2 ^ 53"
  shows "content_size sz (Finite 1) = Inr sz"
proof -
  have a: "\<bar>sz\<bar> < 2 ^ 53" using assms by simp
  have "fl (of_int sz * 1) = of_int sz" using fl_of_int[OF a] by simp
  moreover have "(of_int sz :: rat) < 2 ^ 1024"
  proof -
    have "(of_int sz :: rat) < of_int (2 ^ 53)" using assms(2) by (simp only: of_int_less_iff)
    also have "\<dots> < 2 ^ 1024" by simp
    finally show ?thesis .
  qed
  ultimately show ?thesis
    using assms(1) by (intro content_size_value[OF a, where v = "of_int sz"]) simp_all
qed

lemma percent_one: "py_int (fmul (fsub (Finite 1) (Finite 1)) (Finite 100)) = Inr 0"
  by (simp add: to_double_def fl_def)

text \<open>The paths of the table under \<open>output_path\<close> are free in \<open>world_with im\<close>.\<close>

lemma dirname_output:
  assumes "fn \<in> set (filenames UNIQUE_SIZES)"
  shows "dirname (path_join output_path fn) = output_path"
  using assms unfolding filenames_UNIQUE_SIZES
  by (auto simp: path_join_def dirname_def output_path_def)

lemma world_with_ready:
  assumes "fn \<in> set (filenames UNIQUE_SIZES)"
  shows "(case files (print (print (world_with im) l) l') (path_join output_path fn) of
            Some Dir \<Rightarrow> False | _ \<Rightarrow> True) \<and>
         is_dir (files (print (print (world_with im) l) l')) (dirname (path_join output_path fn))"
proof -
  have "path_join output_path fn \<noteq> source \<and> path_join output_path fn \<noteq> output_path"
    using assms unfolding filenames_UNIQUE_SIZES
    by (auto simp: path_join_def output_path_def source_def)
  then show ?thesis
    by (simp add: dirname_output[OF assms] world_with_def is_dir_def)
qed

lemma nearest_total: "\<forall>s d. \<exists>q. nearest p s d = Inr q"
  by (simp add: nearest_def)

lemma generate_icons_opened:
  assumes "open_source src sf w = (Inr img, w1)"
  shows "generate_icons flt src od sf w =
           (Inr (fst (generate_loop flt img od sf UNIQUE_SIZES w1)),
            snd (generate_loop flt img od sf UNIQUE_SIZES w1))"
  using assms by (simp add: generate_icons_def split: prod.splits)

lemma example_run:
  "fst (generate_icons nearest source output_path default_scale_factor (world_with example_source))
     = Inr True"
proof -
  define img where "img = example_source\<lparr>mode := ''RGBA''\<rparr>"
  define w1 where "w1 = print (print (world_with example_source) (SourceImage 1024 1024))
    (ScaleFactor default_scale_factor 19)"
  have o: "open_source source default_scale_factor (world_with example_source) = (Inr img, w1)"
    by (simp add: open_source_default example_source_def convert_def load_def img_def w1_def)
  have d: "data img = Some (\<lambda>x y. (200, 100, 50, 255))"
    by (simp add: img_def example_source_def)
  have "fst (generate_loop nearest img output_path default_scale_factor UNIQUE_SIZES w1)"
    unfolding w1_def
  proof (rule generate_loop_succeeds[where flt = nearest, OF d nearest_total])
    show "\<exists>cs. content_size sz default_scale_factor = Inr cs \<and> 1 \<le> cs \<and> 0 \<le> sz"
      if "(sz, Some fn) \<in> set UNIQUE_SIZES" for sz fn
      using that by (rule content_sizes_default)
  qed (rule world_with_ready)
  then show ?thesis by (simp add: generate_icons_opened[OF o])
qed

lemma translucent_run:
  "fst (generate_icons nearest source output_path (Finite 1) (world_with translucent_source))
     = Inr True"
proof -
  define w1 where "w1 = print (print (world_with translucent_source) (SourceImage 29 29))
    (ScaleFactor (Finite 1) 0)"
  have o: "open_source source (Finite 1) (world_with translucent_source) =
             (Inr translucent_source, w1)"
    by (simp add: open_source_opened[OF _ percent_one] translucent_source_def w1_def)
  have d: "data translucent_source = Some (\<lambda>x y. (10, 20, 30, 128))"
    by (simp add: translucent_source_def)
  have c: "\<exists>cs. content_size sz (Finite 1) = Inr cs \<and> 1 \<le> cs \<and> 0 \<le> sz"
    if "(sz, Some fn) \<in> set UNIQUE_SIZES" for sz fn
    using sizes_small[OF that] by (simp add: content_size_one)
  have "fst (generate_loop nearest translucent_source output_path (Finite 1) UNIQUE_SIZES w1)"
    unfolding w1_def
  proof (rule generate_loop_succeeds[where flt = nearest, OF d nearest_total])
    show "\<exists>cs. content_size sz (Finite 1) = Inr cs \<and> 1 \<le> cs \<and> 0 \<le> sz"
      if "(sz, Some fn) \<in> set UNIQUE_SIZES" for sz fn
      using that by (rule c)
  qed (rule world_with_ready)
  then show ?thesis by (simp add: generate_icons_opened[OF o])
qed

section \<open>What a successful run leaves behind\<close>

lemma run_file:
  assumes "fst (generate_icons flt src od sf w) = Inr True" and "(sz, Some fn) \<in> set UNIQUE_SIZES"
  shows "\<exists>img0 final. Image_open (files w) src = Inr img0 \<and>
           compose flt (img0\<lparr>mode := ''RGBA''\<rparr>) sf sz = Inr final \<and>
           files (snd (generate_icons flt src od sf w)) (path_join od fn) =
             Some (File (Img ''PNG'' final))"
proof -
  from generate_icons_True[OF assms(1)] obtain img w1 where
    o: "open_source src sf w = (Inr img, w1)" and
    l: "generate_loop flt img od sf UNIQUE_SIZES w1 = (True, snd (generate_icons flt src od sf w))"
    by blast
  from open_source_Inr[OF o] obtain img0 where
    i: "Image_open (files w) src = Inr img0" "img = img0\<lparr>mode := ''RGBA''\<rparr>" by blast
  from generate_loop_written[OF l distinct_paths assms(2)] i show ?thesis by blast
qed

lemma run_other_paths:
  assumes "fst (generate_icons flt src od sf w) = Inr True"
    and "p \<notin> path_join od ` set (filenames UNIQUE_SIZES)"
  shows "files (snd (generate_icons flt src od sf w)) p = files w p"
proof -
  from generate_icons_True[OF assms(1)] obtain img w1 where
    o: "open_source src sf w = (Inr img, w1)" and
    l: "generate_loop flt img od sf UNIQUE_SIZES w1 = (True, snd (generate_icons flt src od sf w))"
    by blast
  from open_source_Inr[OF o] have "files w1 = files w" by blast
  with generate_loop_other_paths[OF l assms(2)] show ?thesis by simp
qed

text \<open>
  C1. After a successful run of \<^verbatim>\<open>generate_icons\<close>, for every entry \<open>(sz, fn)\<close> of the
  table that has a file name, the output directory holds under exactly that name
  (\<^verbatim>\<open>os.path.join(output_dir, fn)\<close>) a PNG file whose raster is the \<^verbatim>\<open>RGBA\<close> canvas of
  \<open>sz\<close> by \<open>sz\<close> pixels that was composed for the entry.
\<close>

theorem icon_files_written:
  assumes "fst (generate_icons flt src od sf w) = Inr True" and "(sz, Some fn) \<in> set UNIQUE_SIZES"
  shows "\<exists>final. files (snd (generate_icons flt src od sf w)) (path_join od fn) =
                    Some (File (Img ''PNG'' final)) \<and>
           mode final = ''RGBA'' \<and> width final = sz \<and> height final = sz \<and>
           (\<exists>p. data final = Some p)"
proof -
  from run_file[OF assms] obtain img0 final where
    c: "compose flt (img0\<lparr>mode := ''RGBA''\<rparr>) sf sz = Inr final" and
    f: "files (snd (generate_icons flt src od sf w)) (path_join od fn) =
          Some (File (Img ''PNG'' final))" by blast
  from compose_Inr[OF c] f show ?thesis by blast
qed

theorem icon_files_written_witness:
  "fst (generate_icons nearest source output_path default_scale_factor (world_with example_source))
     = Inr True \<and>
   (1024, Some ''writing shed 1024.png'') \<in> set UNIQUE_SIZES \<and>
   (\<exists>final. files (snd (generate_icons nearest source output_path default_scale_factor
                 (world_with example_source)))
               (path_join output_path ''writing shed 1024.png'') =
                 Some (File (Img ''PNG'' final)) \<and>
       mode final = ''RGBA'' \<and> width final = 1024 \<and> height final = 1024 \<and>
       (\<exists>p. data final = Some p))"
proof -
  have e: "(1024, Some ''writing shed 1024.png'') \<in> set UNIQUE_SIZES"
    by (simp add: UNIQUE_SIZES_def)
  from icon_files_written[OF example_run e] example_run e show ?thesis by blast
qed

text \<open>
  C9. The file names of \<^verbatim>\<open>UNIQUE_SIZES\<close> are pairwise distinct, there are twelve of them,
  and every key is positive; so the twelve paths written under an output directory are
  distinct, and a successful run leaves a PNG at each of them and changes no other path.
\<close>

theorem twelve_distinct_files:
  "distinct (filenames UNIQUE_SIZES) \<and> length (filenames UNIQUE_SIZES) = 12 \<and>
   list_all (\<lambda>entry. 0 < fst entry) UNIQUE_SIZES \<and>
   distinct (map (path_join od) (filenames UNIQUE_SIZES)) \<and>
   card (path_join od ` set (filenames UNIQUE_SIZES)) = 12 \<and>
   (fst (generate_icons flt src od sf w) = Inr True \<longrightarrow>
      (\<forall>fn \<in> set (filenames UNIQUE_SIZES).
          \<exists>final. files (snd (generate_icons flt src od sf w)) (path_join od fn) =
                     Some (File (Img ''PNG'' final))) \<and>
      (\<forall>p. p \<notin> path_join od ` set (filenames UNIQUE_SIZES) \<longrightarrow>
          files (snd (generate_icons flt src od sf w)) p = files w p))"
proof -
  have len: "length (filenames UNIQUE_SIZES) = 12"
    unfolding filenames_UNIQUE_SIZES by simp
  have pos: "list_all (\<lambda>entry. 0 < fst entry) UNIQUE_SIZES"
    by (simp add: UNIQUE_SIZES_def)
  have "card (set (map (path_join od) (filenames UNIQUE_SIZES))) =
          length (map (path_join od) (filenames UNIQUE_SIZES))"
    using distinct_paths by (rule distinct_card)
  then have card: "card (path_join od ` set (filenames UNIQUE_SIZES)) = 12"
    by (simp add: len)
  have written: "\<exists>final. files (snd (generate_icons flt src od sf w)) (path_join od fn) =
                     Some (File (Img ''PNG'' final))"
    if "fst (generate_icons flt src od sf w) = Inr True" "fn \<in> set (filenames UNIQUE_SIZES)" for fn
  proof -
    from that(2) obtain sz where "(sz, Some fn) \<in> set UNIQUE_SIZES"
      by (auto simp: filenames_set)
    from run_file[OF that(1) this] show ?thesis by blast
  qed
  show ?thesis
    using distinct_filenames len pos distinct_paths card written run_other_paths by blast
qed

theorem twelve_distinct_files_witness:
  "fst (generate_icons nearest source output_path default_scale_factor (world_with example_source))
     = Inr True \<and>
   (\<exists>final. files (snd (generate_icons nearest source output_path default_scale_factor
                 (world_with example_source))) (path_join output_path ''writing shed iPad.png'') =
               Some (File (Img ''PNG'' final))) \<and>
   files (snd (generate_icons nearest source output_path default_scale_factor
            (world_with example_source))) source =
     files (world_with example_source) source \<and>
   card (path_join output_path ` set (filenames UNIQUE_SIZES)) = 12"
proof -
  have e: "''writing shed iPad.png'' \<in> set (filenames UNIQUE_SIZES)"
    unfolding filenames_UNIQUE_SIZES by simp
  have n: "source \<notin> path_join output_path ` set (filenames UNIQUE_SIZES)"
    unfolding filenames_UNIQUE_SIZES by (simp add: path_join_def output_path_def source_def)
  from twelve_distinct_files[of output_path nearest source default_scale_factor
      "world_with example_source"] example_run e n
  show ?thesis by blast
qed

section \<open>Pixels: scale factor 1, and content no larger than the canvas\<close>

lemma unit_scale_file:
  assumes "fst (generate_icons flt src od (Finite 1) w) = Inr True"
    and "(sz, Some fn) \<in> set UNIQUE_SIZES"
  shows "\<exists>img0 sc q p. Image_open (files w) src = Inr img0 \<and>
           resize flt (img0\<lparr>mode := ''RGBA''\<rparr>) (sz, sz) = Inr sc \<and> data sc = Some q \<and>
           files (snd (generate_icons flt src od (Finite 1) w)) (path_join od fn) =
             Some (File (Img ''PNG'' \<lparr>mode = ''RGBA'', width = sz, height = sz, data = Some p\<rparr>)) \<and>
           (\<forall>x y. 0 \<le> x \<and> x < sz \<and> 0 \<le> y \<and> y < sz \<longrightarrow>
                  p x y = blend (alpha (q x y)) (0, 0, 0, 0) (q x y) \<and>
                  (alpha (q x y) = 255 \<longrightarrow> p x y = q x y))"
proof -
  from run_file[OF assms] obtain img0 final where
    i: "Image_open (files w) src = Inr img0" and
    c: "compose flt (img0\<lparr>mode := ''RGBA''\<rparr>) (Finite 1) sz = Inr final" and
    f: "files (snd (generate_icons flt src od (Finite 1) w)) (path_join od fn) =
          Some (File (Img ''PNG'' final))" by blast
  from sizes_small[OF assms(2)] have cs: "content_size sz (Finite 1) = Inr sz"
    by (simp add: content_size_one)
  from compose_no_crop[OF c cs] obtain sc q where
    sc: "resize flt (img0\<lparr>mode := ''RGBA''\<rparr>) (sz, sz) = Inr sc" and q: "data sc = Some q" and
    final: "final = \<lparr>mode = ''RGBA'', width = sz, height = sz, data = Some (\<lambda>x y.
             if (sz - sz) div 2 \<le> x \<and> x < (sz - sz) div 2 + sz \<and> 0 \<le> x \<and> x < sz \<and>
                (sz - sz) div 2 \<le> y \<and> y < (sz - sz) div 2 + sz \<and> 0 \<le> y \<and> y < sz
             then blend (alpha (q (x - (sz - sz) div 2) (y - (sz - sz) div 2))) (0, 0, 0, 0)
                    (q (x - (sz - sz) div 2) (y - (sz - sz) div 2))
             else (0, 0, 0, 0))\<rparr>" by auto
  define p where "p = (\<lambda>x y.
             if (sz - sz) div 2 \<le> x \<and> x < (sz - sz) div 2 + sz \<and> 0 \<le> x \<and> x < sz \<and>
                (sz - sz) div 2 \<le> y \<and> y < (sz - sz) div 2 + sz \<and> 0 \<le> y \<and> y < sz
             then blend (alpha (q (x - (sz - sz) div 2) (y - (sz - sz) div 2))) (0, 0, 0, 0)
                    (q (x - (sz - sz) div 2) (y - (sz - sz) div 2))
             else (0, 0, 0, 0))"
  have px: "p x y = blend (alpha (q x y)) (0, 0, 0, 0) (q x y) \<and>
            (alpha (q x y) = 255 \<longrightarrow> p x y = q x y)"
    if "0 \<le> x \<and> x < sz \<and> 0 \<le> y \<and> y < sz" for x y
    using that by (simp add: p_def blend_opaque)
  have "files (snd (generate_icons flt src od (Finite 1) w)) (path_join od fn) =
          Some (File (Img ''PNG'' \<lparr>mode = ''RGBA'', width = sz, height = sz, data = Some p\<rparr>))"
    using f final by (simp add: p_def)
  with i sc q px show ?thesis by blast
qed

text \<open>
  C8, as stated: with scale factor 1.0 every saved raster equals the resized source,
  pixel for pixel. It does not where the source is translucent: the paste blends every
  channel, alpha included, by the pixel's own alpha. For the 29 by 29 source whose pixels
  are all \<open>(10, 20, 30, 128)\<close> the run succeeds, the resize to 29 by 29 returns the source
  as it is, and the file saved for size 29 shows \<open>(5, 10, 15, 64)\<close> at the origin.
\<close>

theorem unit_scale_not_identical:
  "fst (generate_icons nearest source output_path (Finite 1) (world_with translucent_source))
     = Inr True \<and>
   resize nearest translucent_source (29, 29) = Inr translucent_source \<and>
   data translucent_source = Some (\<lambda>x y. (10, 20, 30, 128)) \<and>
   pixel_at (files (snd (generate_icons nearest source output_path (Finite 1)
                           (world_with translucent_source))))
     (path_join output_path ''writing shed iPhone Settings.png'') 0 0 = Some (5, 10, 15, 64)"
proof -
  have e: "(29, Some ''writing shed iPhone Settings.png'') \<in> set UNIQUE_SIZES"
    by (simp add: UNIQUE_SIZES_def)
  have m: "translucent_source\<lparr>mode := ''RGBA''\<rparr> = translucent_source"
    by (simp add: translucent_source_def)
  have r: "resize nearest translucent_source (29, 29) = Inr translucent_source"
    by (simp add: resize_def load_def translucent_source_def)
  have d: "data translucent_source = Some (\<lambda>x y. (10, 20, 30, 128))"
    by (simp add: translucent_source_def)
  from unit_scale_file[OF translucent_run e] obtain sc q p where
    sc: "resize nearest translucent_source (29, 29) = Inr sc" and q: "data sc = Some q" and
    f: "files (snd (generate_icons nearest source output_path (Finite 1)
                      (world_with translucent_source)))
          (path_join output_path ''writing shed iPhone Settings.png'') =
          Some (File (Img ''PNG'' \<lparr>mode = ''RGBA'', width = 29, height = 29, data = Some p\<rparr>))" and
    px: "\<forall>x y. 0 \<le> x \<and> x < 29 \<and> 0 \<le> y \<and> y < 29 \<longrightarrow>
                  p x y = blend (alpha (q x y)) (0, 0, 0, 0) (q x y) \<and>
                  (alpha (q x y) = 255 \<longrightarrow> p x y = q x y)"
    by (auto simp: m)
  from sc r q d have "q = (\<lambda>x y. (10, 20, 30, 128))" by simp
  with px have "p 0 0 = (5, 10, 15, 64)" by (simp add: blend8_def div255_def)
  with f have "pixel_at (files (snd (generate_icons nearest source output_path (Finite 1)
                           (world_with translucent_source))))
     (path_join output_path ''writing shed iPhone Settings.png'') 0 0 = Some (5, 10, 15, 64)"
    by (simp add: pixel_at_def)
  with translucent_run r d show ?thesis by blast
qed

text \<open>
  C8, amended: with scale factor 1.0, after a successful run, the file of every entry
  \<open>(sz, fn)\<close> is a \<open>sz\<close> by \<open>sz\<close> raster, the source (converted to \<^verbatim>\<open>RGBA\<close>) is resized to
  \<open>sz\<close> by \<open>sz\<close> and pasted at the origin without a crop and without a border, and every
  pixel of the file is the resized pixel blended onto transparent black by its own
  alpha: the resized pixel itself wherever that pixel is opaque.
\<close>

theorem unit_scale_output:
  assumes "fst (generate_icons flt src od (Finite 1) w) = Inr True"
    and "(sz, Some fn) \<in> set UNIQUE_SIZES"
  shows "\<exists>img0 sc q p. Image_open (files w) src = Inr img0 \<and>
           resize flt (img0\<lparr>mode := ''RGBA''\<rparr>) (sz, sz) = Inr sc \<and> data sc = Some q \<and>
           files (snd (generate_icons flt src od (Finite 1) w)) (path_join od fn) =
             Some (File (Img ''PNG'' \<lparr>mode = ''RGBA'', width = sz, height = sz, data = Some p\<rparr>)) \<and>
           (\<forall>x y. 0 \<le> x \<and> x < sz \<and> 0 \<le> y \<and> y < sz \<longrightarrow>
                  p x y = blend (alpha (q x y)) (0, 0, 0, 0) (q x y) \<and>
                  (alpha (q x y) = 255 \<longrightarrow> p x y = q x y))"
  using assms by (rule unit_scale_file)

theorem unit_scale_output_witness:
  "fst (generate_icons nearest source output_path (Finite 1) (world_with translucent_source))
     = Inr True \<and>
   (29, Some ''writing shed iPhone Settings.png'') \<in> set UNIQUE_SIZES \<and>
   (\<exists>img0 sc q p. Image_open (files (world_with translucent_source)) source = Inr img0 \<and>
       resize nearest (img0\<lparr>mode := ''RGBA''\<rparr>) (29, 29) = Inr sc \<and> data sc = Some q \<and>
       files (snd (generate_icons nearest source output_path (Finite 1)
                     (world_with translucent_source)))
         (path_join output_path ''writing shed iPhone Settings.png'') =
         Some (File (Img ''PNG'' \<lparr>mode = ''RGBA'', width = 29, height = 29, data = Some p\<rparr>)) \<and>
       (\<forall>x y. 0 \<le> x \<and> x < 29 \<and> 0 \<le> y \<and> y < 29 \<longrightarrow>
              p x y = blend (alpha (q x y)) (0, 0, 0, 0) (q x y) \<and>
              (alpha (q x y) = 255 \<longrightarrow> p x y = q x y)))"
proof -
  have e: "(29, Some ''writing shed iPhone Settings.png'') \<in> set UNIQUE_SIZES"
    by (simp add: UNIQUE_SIZES_def)
  from unit_scale_output[OF translucent_run e] translucent_run e show ?thesis by blast
qed

lemma render_no_crop:
  assumes "render flt img od sf sz fn w = Inr w'" and "content_size sz sf = Inr cs" and "cs \<le> sz"
  shows "\<exists>sc q p. resize flt img (cs, cs) = Inr sc \<and> width sc = cs \<and> height sc = cs \<and>
           data sc = Some q \<and> (1 \<le> cs \<or> (width img, height img) = (cs, cs)) \<and>
           paste_pos sz cs = ((sz - cs) div 2, (sz - cs) div 2) \<and>
           compose flt img sf sz =
             paste \<lparr>mode = ''RGBA'', width = sz, height = sz, data = Some (\<lambda>x y. (0, 0, 0, 0))\<rparr>
               sc ((sz - cs) div 2, (sz - cs) div 2) sc \<and>
           files w' (path_join od fn) =
             Some (File (Img ''PNG'' \<lparr>mode = ''RGBA'', width = sz, height = sz, data = Some p\<rparr>)) \<and>
           (\<forall>x y. 0 \<le> x \<and> x < sz \<and> 0 \<le> y \<and> y < sz \<longrightarrow>
              p x y =
                (if (sz - cs) div 2 \<le> x \<and> x < (sz - cs) div 2 + cs \<and>
                    (sz - cs) div 2 \<le> y \<and> y < (sz - cs) div 2 + cs
                 then blend (alpha (q (x - (sz - cs) div 2) (y - (sz - cs) div 2))) (0, 0, 0, 0)
                        (q (x - (sz - cs) div 2) (y - (sz - cs) div 2))
                 else (0, 0, 0, 0))) \<and>
           (cs < sz \<longrightarrow> p (sz - 1) (sz - 1) = (0, 0, 0, 0))"
proof -
  from render_Inr[OF assms(1)] obtain final where
    c: "compose flt img sf sz = Inr final" and
    w': "w' = print (w\<lparr>files := (files w)(path_join od fn \<mapsto> File (Img ''PNG'' final))\<rparr>)
               (Generated sz fn)" by blast
  define p where "p = (\<lambda>q x y.
             if (sz - cs) div 2 \<le> x \<and> x < (sz - cs) div 2 + cs \<and> 0 \<le> x \<and> x < sz \<and>
                (sz - cs) div 2 \<le> y \<and> y < (sz - cs) div 2 + cs \<and> 0 \<le> y \<and> y < sz
             then blend (alpha (q (x - (sz - cs) div 2) (y - (sz - cs) div 2))) (0, 0, 0, 0)
                    (q (x - (sz - cs) div 2) (y - (sz - cs) div 2))
             else (0, 0, 0, 0 :: 8 word))"
  from compose_no_crop[OF c assms(2,3)] obtain sc q where
    sc: "resize flt img (cs, cs) = Inr sc" and q: "data sc = Some q" and
    final: "final = \<lparr>mode = ''RGBA'', width = sz, height = sz, data = Some (p q)\<rparr>"
    unfolding p_def by auto
  from resize_Inr[OF sc] have d: "width sc = cs" "height sc = cs" by simp_all
  have one: "1 \<le> cs \<or> (width img, height img) = (cs, cs)"
    using sc by (auto simp: resize_def split: sum.splits if_splits)
  have pos: "paste_pos sz cs = ((sz - cs) div 2, (sz - cs) div 2)"
    using assms(3) by (simp add: paste_pos_def)
  have cmp: "compose flt img sf sz =
             paste \<lparr>mode = ''RGBA'', width = sz, height = sz, data = Some (\<lambda>x y. (0, 0, 0, 0))\<rparr>
               sc ((sz - cs) div 2, (sz - cs) div 2) sc"
    using assms(2,3) sc c by (auto simp: compose_def Image_new_def pos split: if_splits)
  have saved: "files w' (path_join od fn) =
             Some (File (Img ''PNG'' \<lparr>mode = ''RGBA'', width = sz, height = sz, data = Some (p q)\<rparr>))"
    by (simp add: w' final)
  have px: "p q x y =
                (if (sz - cs) div 2 \<le> x \<and> x < (sz - cs) div 2 + cs \<and>
                    (sz - cs) div 2 \<le> y \<and> y < (sz - cs) div 2 + cs
                 then blend (alpha (q (x - (sz - cs) div 2) (y - (sz - cs) div 2))) (0, 0, 0, 0)
                        (q (x - (sz - cs) div 2) (y - (sz - cs) div 2))
                 else (0, 0, 0, 0))"
    if "0 \<le> x \<and> x < sz \<and> 0 \<le> y \<and> y < sz" for x y
    using that by (simp add: p_def)
  have corner: "p q (sz - 1) (sz - 1) = (0, 0, 0, 0)" if "cs < sz"
  proof -
    have "\<not> sz - 1 < (sz - cs) div 2 + cs" using that by linarith
    then show ?thesis by (simp add: p_def)
  qed
  show ?thesis using sc d q one pos cmp saved px corner by blast
qed

text \<open>
  C10, as stated: whenever the content size is at most the size, for instance for any
  scale factor of at most 1, the resized content is pasted and a raster is saved. It is
  not when the content size is below 1: with scale factor \<open>1/64\<close> the content size of entry
  29 is 0, \<^verbatim>\<open>resize\<close> raises \<^verbatim>\<open>ValueError\<close>, nothing is saved and \<^verbatim>\<open>generate_icons\<close> returns
  \<^verbatim>\<open>False\<close>.
\<close>

theorem small_scale_fails:
  "content_size 29 (Finite (1 / 64)) = Inr 0 \<and> (0::int) \<le> 29 \<and>
   compose nearest (example_source\<lparr>mode := ''RGBA''\<rparr>) (Finite (1 / 64)) 29 = Inl ValueError \<and>
   generate_icons nearest source output_path (Finite (1 / 64)) (world_with example_source) =
     (Inr False,
      print (print (print (world_with example_source) (SourceImage 1024 1024))
        (ScaleFactor (Finite (1 / 64)) (- 98))) (ErrorGenerating 29 ValueError)) \<and>
   files (print (print (print (world_with example_source) (SourceImage 1024 1024))
        (ScaleFactor (Finite (1 / 64)) (- 98))) (ErrorGenerating 29 ValueError)) =
     files (world_with example_source)"
proof -
  have f: "fl (of_int 29 * (1 / 64)) = 29 / 64" by code_simp
  have cs: "content_size 29 (Finite (1 / 64)) = Inr 0"
    using content_size_value[OF _ f] by simp
  have cmp: "compose nearest (example_source\<lparr>mode := ''RGBA''\<rparr>) (Finite (1 / 64)) 29 =
               Inl ValueError"
    by (simp add: compose_def cs resize_def load_def example_source_def)
  have f1: "fl (1 / 64 - 1) = - (63 / 64)" by code_simp
  have f2: "fl (- (63 / 64) * 100) = - (1575 / 16)" by code_simp
  have t1: "to_double (1 / 64 - 1) = Finite (- (63 / 64))"
    by (rule to_double_value[OF f1]) simp_all
  have t2: "to_double (- (63 / 64) * 100) = Finite (- (1575 / 16))"
    by (rule to_double_value[OF f2]) simp_all
  have c: "\<lceil>- (1575 / 16) :: rat\<rceil> = - 98"
    by (rule ceiling_unique) simp_all
  have pct: "py_int (fmul (fsub (Finite (1 / 64)) (Finite 1)) (Finite 100)) = Inr (- 98)"
    by (simp only: fsub.simps fmul.simps t1 t2 py_int.simps) (simp add: c)
  have o: "open_source source (Finite (1 / 64)) (world_with example_source) =
             (Inr (example_source\<lparr>mode := ''RGBA''\<rparr>),
              print (print (world_with example_source) (SourceImage 1024 1024))
                (ScaleFactor (Finite (1 / 64)) (- 98)))"
    by (simp add: open_source_opened[OF _ pct] example_source_def convert_def load_def)
  have g: "generate_icons nearest source output_path (Finite (1 / 64)) (world_with example_source) =
     (Inr False,
      print (print (print (world_with example_source) (SourceImage 1024 1024))
        (ScaleFactor (Finite (1 / 64)) (- 98))) (ErrorGenerating 29 ValueError))"
    by (simp add: generate_icons_opened[OF o] UNIQUE_SIZES_def render_def cmp)
  show ?thesis using cs cmp g by simp
qed

text \<open>
  C10, amended: whenever an entry is rendered and saved without an error and its content
  size \<open>cs\<close> is at most the size \<open>sz\<close>, no crop is performed: the source resized to \<open>cs\<close> by
  \<open>cs\<close> is itself pasted at \<open>((sz - cs) div 2, (sz - cs) div 2)\<close> onto the transparent
  canvas (\<open>cs\<close> is at least 1 unless the source already has that size), the saved raster
  is \<open>sz\<close> by \<open>sz\<close>, its pixels inside the pasted square are the
  content's blended onto transparent black by their own alpha and all others are
  transparent, so that a border remains when \<open>cs < sz\<close> (the last pixel of the last row
  lies in it).
\<close>

theorem no_crop_centered:
  assumes "render flt img od sf sz fn w = Inr w'" and "content_size sz sf = Inr cs" and "cs \<le> sz"
  shows "\<exists>sc q p. resize flt img (cs, cs) = Inr sc \<and> width sc = cs \<and> height sc = cs \<and>
           data sc = Some q \<and> (1 \<le> cs \<or> (width img, height img) = (cs, cs)) \<and>
           paste_pos sz cs = ((sz - cs) div 2, (sz - cs) div 2) \<and>
           compose flt img sf sz =
             paste \<lparr>mode = ''RGBA'', width = sz, height = sz, data = Some (\<lambda>x y. (0, 0, 0, 0))\<rparr>
               sc ((sz - cs) div 2, (sz - cs) div 2) sc \<and>
           files w' (path_join od fn) =
             Some (File (Img ''PNG'' \<lparr>mode = ''RGBA'', width = sz, height = sz, data = Some p\<rparr>)) \<and>
           (\<forall>x y. 0 \<le> x \<and> x < sz \<and> 0 \<le> y \<and> y < sz \<longrightarrow>
              p x y =
                (if (sz - cs) div 2 \<le> x \<and> x < (sz - cs) div 2 + cs \<and>
                    (sz - cs) div 2 \<le> y \<and> y < (sz - cs) div 2 + cs
                 then blend (alpha (q (x - (sz - cs) div 2) (y - (sz - cs) div 2))) (0, 0, 0, 0)
                        (q (x - (sz - cs) div 2) (y - (sz - cs) div 2))
                 else (0, 0, 0, 0))) \<and>
           (cs < sz \<longrightarrow> p (sz - 1) (sz - 1) = (0, 0, 0, 0))"
  using assms by (rule render_no_crop)

theorem no_crop_centered_witness:
  "content_size 40 (Finite (1 / 2)) = Inr 20 \<and> (20::int) \<le> 40 \<and>
   (\<exists>w'. render nearest (example_source\<lparr>mode := ''RGBA''\<rparr>) output_path (Finite (1 / 2)) 40
            ''writing shed spotlight.png''
            (print (print (world_with example_source) (SourceImage 1024 1024))
               (ScaleFactor (Finite (1 / 2)) (- 50))) = Inr w' \<and>
      (\<exists>sc q p. resize nearest (example_source\<lparr>mode := ''RGBA''\<rparr>) (20, 20) = Inr sc \<and>
         width sc = 20 \<and> height sc = 20 \<and> data sc = Some q \<and>
         paste_pos 40 20 = (10, 10) \<and>
         files w' (path_join output_path ''writing shed spotlight.png'') =
           Some (File (Img ''PNG'' \<lparr>mode = ''RGBA'', width = 40, height = 40, data = Some p\<rparr>)) \<and>
         p 39 39 = (0, 0, 0, 0)))"
proof -
  define w where "w = print (print (world_with example_source) (SourceImage 1024 1024))
               (ScaleFactor (Finite (1 / 2)) (- 50))"
  have f: "fl (of_int 40 * (1 / 2)) = 20" by code_simp
  have cs: "content_size 40 (Finite (1 / 2)) = Inr 20"
    using content_size_value[OF _ f] by simp
  have le: "(20::int) \<le> 40" by simp
  have d: "data (example_source\<lparr>mode := ''RGBA''\<rparr>) = Some (\<lambda>x y. (200, 100, 50, 255))"
    by (simp add: example_source_def)
  have e: "''writing shed spotlight.png'' \<in> set (filenames UNIQUE_SIZES)"
    unfolding filenames_UNIQUE_SIZES by simp
  have ready: "(case files w (path_join output_path ''writing shed spotlight.png'') of
            Some Dir \<Rightarrow> False | _ \<Rightarrow> True) \<and>
         is_dir (files w) (dirname (path_join output_path ''writing shed spotlight.png''))"
    unfolding w_def using e by (rule world_with_ready)
  from render_succeeds[where flt = nearest and w = w and od = output_path
      and fn = "''writing shed spotlight.png''", OF d nearest_total cs] ready
  obtain w' where r: "render nearest (example_source\<lparr>mode := ''RGBA''\<rparr>) output_path
      (Finite (1 / 2)) 40 ''writing shed spotlight.png'' w = Inr w'" by auto
  from no_crop_centered[OF r cs le] r cs show ?thesis unfolding w_def by auto
qed

end
